theory Spec2Isabelle
  imports Main
begin

section \<open>The client sync manager (SSE and Yjs synchronisation module)\<close>

text \<open>
  The module keeps five module variables (\<open>currentPageSync\<close>, \<open>currentCollectionSync\<close>,
  \<open>ydoc\<close>, \<open>yXmlFragment\<close>, \<open>yMetadata\<close>) and the object \<open>state\<close> (editor, current page id,
  current collection id, page list callback). Its functions run to completion on the
  JavaScript event loop, so every one of them is a function from the state before to the
  state after. The objects that its closures share (event sources, the closure
  variables of each editor binding, pending timers, the requests sent, the parts of the
  page it writes) are stores in the same state.
\<close>

subsection \<open>The replicated-state engine\<close>

text \<open>
  Yjs is a library the module imports. It is taken as a parameter: a value of type
  \<open>'d\<close> is the content of a \<open>Y.Doc\<close>, and the record below gives the four operations the
  module calls. \<open>applyUpdate\<close> returns \<open>None\<close> where \<open>Y.applyUpdate\<close> throws, and otherwise
  the merged document with the update message that the transaction hands to the
  document's \<open>update\<close> observers (\<open>None\<close> when the transaction changed nothing).
  \<open>metaGet\<close> is \<open>ydoc.getMap('metadata').get('content')\<close> (\<open>None\<close> is \<open>undefined\<close>) and
  \<open>metaSet\<close> is \<open>.set('content', v)\<close>.
\<close>

type_synonym update = "nat list"
type_synonym page_id = string
type_synonym collection_id = string

record 'd yjs =
  newDoc :: 'd
  applyUpdate :: "'d \<Rightarrow> update \<Rightarrow> ('d \<times> update option) option"
  metaGet :: "'d \<Rightarrow> string option"
  metaSet :: "'d \<Rightarrow> string \<Rightarrow> 'd \<times> update option"

record 'd ydoc_obj =
  doc :: 'd
  observers :: "page_id list"

subsection \<open>Event sources, timers, editor, page\<close>

datatype ready_state = CONNECTING | OPEN | CLOSED

datatype stream = PageStream page_id bool | CollectionStream collection_id

record event_source =
  target :: stream
  readyState :: ready_state

datatype timer_callback = Reconnect page_id bool | Debounce nat

type_synonym timer = "nat \<times> nat \<times> timer_callback"

record binding =
  remoteUpdatePending :: "string option"
  updateTimeout :: "nat option"
  isUpdating :: bool

record editor_obj =
  html :: string
  hasFocus :: bool
  updateHandlers :: "nat list"
  blurHandlers :: "nat list"
  setPendingRemoteUpdate :: "nat option"
  syncIsUpdating :: "bool option"

datatype icon_el = FaIcon string | PageIcon string

record title_span =
  spanIcon :: "icon_el option"
  spanText :: string

record page_item =
  dataPageId :: string
  titleSpan :: "title_span option"

record cover_view =
  coverShown :: "(string \<times> nat) option"
  coverImageEl :: bool
  backgroundPositionY :: string

datatype notice = EncryptedNotSupported | NetworkRestored | NetworkLost | UserJoinedNotice string

record metadata_event =
  evField :: string
  evPageId :: page_id
  evValue :: string

record 'd sync_state =
  currentPageSync :: "(nat \<times> page_id) option"
  currentCollectionSync :: "(nat \<times> collection_id) option"
  ydoc :: "'d ydoc_obj option"
  yXmlFragment :: bool
  yMetadata :: bool
  editor :: "editor_obj option"
  currentPageId :: "page_id option"
  currentCollectionId :: "collection_id option"
  fetchPageList :: bool
  sources :: "event_source list"
  bindings :: "binding list"
  timers :: "timer list"
  nextTimer :: nat
  clock :: nat
  sent :: "(page_id \<times> update) list"
  sidebar :: "page_item list"
  cover :: cover_view
  notices :: "notice list"
  listFetches :: nat

text \<open>
  \<open>yXmlFragment\<close> and \<open>yMetadata\<close> are handles into \<open>ydoc\<close>: the model keeps whether each
  variable is set (\<open>True\<close>) or \<open>null\<close>. An event source is named by its index in \<open>sources\<close>,
  a binding (the variables \<open>remoteUpdatePending\<close>, \<open>updateTimeout\<close>, \<open>isUpdating\<close> that one
  call of \<open>setupEditorBinding\<close> creates) by its index in \<open>bindings\<close>. A timer is its id, the
  time at which it is due and its callback. \<open>sent\<close> lists the bodies posted to
  \<open>/api/pages/<id>/sync-update\<close>. \<open>showCover\<close> and \<open>hideCover\<close> belong to another module:
  \<open>coverShown\<close> records the last call.
\<close>

definition truthy :: "string \<Rightarrow> bool" where
  "truthy v = (v \<noteq> [])"

definition modify :: "nat \<Rightarrow> ('a \<Rightarrow> 'a) \<Rightarrow> 'a list \<Rightarrow> 'a list" where
  "modify i f xs = (if i < length xs then xs[i := f (xs ! i)] else xs)"

definition lookupAt :: "'a list \<Rightarrow> nat \<Rightarrow> 'a option" where
  "lookupAt xs i = (if i < length xs then Some (xs ! i) else None)"

definition showInfo :: "notice \<Rightarrow> 'd sync_state \<Rightarrow> 'd sync_state" where
  "showInfo n s = s\<lparr>notices := notices s @ [n]\<rparr>"

definition closeSource :: "nat \<Rightarrow> 'd sync_state \<Rightarrow> 'd sync_state" where
  "closeSource i s = s\<lparr>sources := modify i (\<lambda>e. e\<lparr>readyState := CLOSED\<rparr>) (sources s)\<rparr>"

definition newEventSource :: "stream \<Rightarrow> 'd sync_state \<Rightarrow> 'd sync_state" where
  "newEventSource t s = s\<lparr>sources := sources s @ [\<lparr>target = t, readyState = CONNECTING\<rparr>]\<rparr>"

definition setTimeout :: "timer_callback \<Rightarrow> nat \<Rightarrow> 'd sync_state \<Rightarrow> 'd sync_state" where
  "setTimeout cb delay s =
     s\<lparr>timers := timers s @ [(nextTimer s, clock s + delay, cb)], nextTimer := Suc (nextTimer s)\<rparr>"

definition clearTimeout :: "nat \<Rightarrow> 'd sync_state \<Rightarrow> 'd sync_state" where
  "clearTimeout t s = s\<lparr>timers := filter (\<lambda>x. fst x \<noteq> t) (timers s)\<rparr>"

subsection \<open>Page synchronisation\<close>

definition sendYjsUpdate :: "page_id \<Rightarrow> update \<Rightarrow> 'd sync_state \<Rightarrow> 'd sync_state" where
  "sendYjsUpdate pageId u s = s\<lparr>sent := sent s @ [(pageId, u)]\<rparr>"

definition ydocUpdateHandler :: "page_id \<Rightarrow> update \<Rightarrow> string option \<Rightarrow> 'd sync_state \<Rightarrow> 'd sync_state" where
  "ydocUpdateHandler pageId u origin s =
     (if origin \<noteq> Some ''remote'' then sendYjsUpdate pageId u s else s)"

definition fireObservers :: "string option \<Rightarrow> update option \<Rightarrow> 'd sync_state \<Rightarrow> 'd sync_state" where
  "fireObservers origin em s =
     (case em of None \<Rightarrow> s
      | Some u \<Rightarrow> (case ydoc s of None \<Rightarrow> s
          | Some y \<Rightarrow> foldl (\<lambda>s' p. ydocUpdateHandler p u origin s') s (observers y)))"

definition stopPageSync :: "'d sync_state \<Rightarrow> 'd sync_state" where
  "stopPageSync s =
     (let s1 = (case currentPageSync s of
                  Some (i, p) \<Rightarrow> (closeSource i s)\<lparr>currentPageSync := None\<rparr>
                | None \<Rightarrow> s);
          s2 = (case ydoc s1 of
                  Some y \<Rightarrow> s1\<lparr>ydoc := None, yXmlFragment := False, yMetadata := False\<rparr>
                | None \<Rightarrow> s1)
      in s2\<lparr>currentPageId := None\<rparr>)"

definition startPageSync :: "'d yjs \<Rightarrow> page_id \<Rightarrow> bool \<Rightarrow> 'd sync_state \<Rightarrow> 'd sync_state" where
  "startPageSync E pageId isEncrypted s =
     (if isEncrypted then showInfo EncryptedNotSupported s
      else
        let s1 = stopPageSync s;
            s2 = s1\<lparr>currentPageId := Some pageId,
                    ydoc := Some \<lparr>doc = newDoc E, observers = []\<rparr>,
                    yXmlFragment := True, yMetadata := True\<rparr>;
            eventSource = length (sources s2);
            s3 = newEventSource (PageStream pageId isEncrypted) s2;
            s4 = s3\<lparr>currentPageSync := Some (eventSource, pageId)\<rparr>
        in s4\<lparr>ydoc := map_option (\<lambda>y. y\<lparr>observers := observers y @ [pageId]\<rparr>) (ydoc s4)\<rparr>)"

definition setContent :: "string \<Rightarrow> 'd sync_state \<Rightarrow> 'd sync_state" where
  "setContent c s = s\<lparr>editor := map_option (\<lambda>ed. ed\<lparr>html := c\<rparr>) (editor s)\<rparr>"

definition setPending :: "nat \<Rightarrow> string \<Rightarrow> 'd sync_state \<Rightarrow> 'd sync_state" where
  "setPending b c s =
     s\<lparr>bindings := modify b (\<lambda>x. x\<lparr>remoteUpdatePending := Some c\<rparr>) (bindings s)\<rparr>"

definition applyRemoteContent :: "string option \<Rightarrow> 'd sync_state \<Rightarrow> 'd sync_state" where
  "applyRemoteContent content s =
     (case content of None \<Rightarrow> s
      | Some c \<Rightarrow>
          (case editor s of None \<Rightarrow> s
           | Some ed \<Rightarrow>
               if truthy c \<and> c \<noteq> html ed then
                 if hasFocus ed then
                   (case setPendingRemoteUpdate ed of
                      Some b \<Rightarrow> setPending b c s
                    | None \<Rightarrow> s)
                 else setContent c s
               else s))"

definition onYjsUpdate :: "'d yjs \<Rightarrow> update option \<Rightarrow> 'd sync_state \<Rightarrow> 'd sync_state" where
  "onYjsUpdate E payload s =
     (case payload of None \<Rightarrow> s
      | Some u \<Rightarrow>
          (case ydoc s of None \<Rightarrow> s
           | Some y \<Rightarrow>
               (case applyUpdate E (doc y) u of None \<Rightarrow> s
                | Some (d', em) \<Rightarrow>
                    let s1 = fireObservers (Some ''remote'') em (s\<lparr>ydoc := Some (y\<lparr>doc := d'\<rparr>)\<rparr>)
                    in if yMetadata s1 then applyRemoteContent (metaGet E d') s1 else s1)))"

definition metadataSet :: "'d yjs \<Rightarrow> string \<Rightarrow> 'd sync_state \<Rightarrow> 'd sync_state" where
  "metadataSet E c s =
     (case ydoc s of None \<Rightarrow> s
      | Some y \<Rightarrow>
          let (d', em) = metaSet E (doc y) c
          in fireObservers None em (s\<lparr>ydoc := Some (y\<lparr>doc := d'\<rparr>)\<rparr>))"

definition setupEditorBinding :: "'d yjs \<Rightarrow> 'd sync_state \<Rightarrow> 'd sync_state" where
  "setupEditorBinding E s =
     (case editor s of None \<Rightarrow> s
      | Some ed \<Rightarrow>
          if ydoc s = None \<or> \<not> yMetadata s then s
          else
            let s1 = metadataSet E (html ed) s;
                b = length (bindings s1);
                s2 = s1\<lparr>bindings := bindings s1 @
                        [\<lparr>remoteUpdatePending = None, updateTimeout = None, isUpdating = False\<rparr>]\<rparr>
            in s2\<lparr>editor := Some (ed\<lparr>updateHandlers := updateHandlers ed @ [b],
                                     blurHandlers := blurHandlers ed @ [b],
                                     setPendingRemoteUpdate := Some b,
                                     syncIsUpdating := Some False\<rparr>)\<rparr>)"

definition onInit :: "'d yjs \<Rightarrow> update option \<Rightarrow> 'd sync_state \<Rightarrow> 'd sync_state" where
  "onInit E payload s =
     (case payload of None \<Rightarrow> s
      | Some u \<Rightarrow>
          (case ydoc s of None \<Rightarrow> s
           | Some y \<Rightarrow>
               (case applyUpdate E (doc y) u of None \<Rightarrow> s
                | Some (d', em) \<Rightarrow>
                    setupEditorBinding E
                      (fireObservers None em (s\<lparr>ydoc := Some (y\<lparr>doc := d'\<rparr>)\<rparr>)))))"

definition onPageError :: "nat \<Rightarrow> page_id \<Rightarrow> bool \<Rightarrow> 'd sync_state \<Rightarrow> 'd sync_state" where
  "onPageError i pageId isEncrypted s =
     setTimeout (Reconnect pageId isEncrypted) 3000 (closeSource i s)"

definition reconnectCallback :: "'d yjs \<Rightarrow> page_id \<Rightarrow> bool \<Rightarrow> 'd sync_state \<Rightarrow> 'd sync_state" where
  "reconnectCallback E pageId isEncrypted s =
     (if currentPageId s = Some pageId then startPageSync E pageId isEncrypted s else s)"

subsection \<open>The editor binding\<close>

definition onEditorUpdate :: "nat \<Rightarrow> 'd sync_state \<Rightarrow> 'd sync_state" where
  "onEditorUpdate b s =
     (case lookupAt (bindings s) b of None \<Rightarrow> s
      | Some x \<Rightarrow>
          if isUpdating x then s
          else
            let s1 = (case updateTimeout x of Some t \<Rightarrow> clearTimeout t s | None \<Rightarrow> s);
                t' = nextTimer s1;
                s2 = setTimeout (Debounce b) 200 s1
            in s2\<lparr>bindings := modify b (\<lambda>x. x\<lparr>updateTimeout := Some t'\<rparr>) (bindings s2)\<rparr>)"

definition debounceCallback :: "'d yjs \<Rightarrow> 'd sync_state \<Rightarrow> 'd sync_state" where
  "debounceCallback E s =
     (case editor s of None \<Rightarrow> s
      | Some ed \<Rightarrow>
          (case ydoc s of None \<Rightarrow> s
           | Some y \<Rightarrow>
               if \<not> yMetadata s then s
               else if Some (html ed) \<noteq> metaGet E (doc y) then metadataSet E (html ed) s
               else s))"

definition onEditorBlur :: "nat \<Rightarrow> 'd sync_state \<Rightarrow> 'd sync_state" where
  "onEditorBlur b s =
     (case lookupAt (bindings s) b of None \<Rightarrow> s
      | Some x \<Rightarrow>
          (case remoteUpdatePending x of None \<Rightarrow> s
           | Some c \<Rightarrow>
               if truthy c then
                 let s1 = s\<lparr>bindings := modify b (\<lambda>x. x\<lparr>isUpdating := True\<rparr>) (bindings s)\<rparr>;
                     s2 = setContent c s1;
                     s3 = s2\<lparr>bindings := modify b (\<lambda>x. x\<lparr>remoteUpdatePending := None\<rparr>) (bindings s2)\<rparr>
                 in s3\<lparr>bindings := modify b (\<lambda>x. x\<lparr>isUpdating := False\<rparr>) (bindings s3)\<rparr>
               else s))"

definition editorEdit :: "string \<Rightarrow> 'd sync_state \<Rightarrow> 'd sync_state" where
  "editorEdit h s =
     (case editor s of None \<Rightarrow> s
      | Some ed \<Rightarrow>
          foldl (\<lambda>s' b. onEditorUpdate b s') (s\<lparr>editor := Some (ed\<lparr>html := h\<rparr>)\<rparr>) (updateHandlers ed))"

definition editorFocus :: "'d sync_state \<Rightarrow> 'd sync_state" where
  "editorFocus s = s\<lparr>editor := map_option (\<lambda>ed. ed\<lparr>hasFocus := True\<rparr>) (editor s)\<rparr>"

definition editorBlur :: "'d sync_state \<Rightarrow> 'd sync_state" where
  "editorBlur s =
     (case editor s of None \<Rightarrow> s
      | Some ed \<Rightarrow>
          foldl (\<lambda>s' b. onEditorBlur b s') (s\<lparr>editor := Some (ed\<lparr>hasFocus := False\<rparr>)\<rparr>) (blurHandlers ed))"

subsection \<open>Collection metadata synchronisation\<close>

definition stopCollectionSync :: "'d sync_state \<Rightarrow> 'd sync_state" where
  "stopCollectionSync s =
     (let s1 = (case currentCollectionSync s of
                  Some (i, c) \<Rightarrow> (closeSource i s)\<lparr>currentCollectionSync := None\<rparr>
                | None \<Rightarrow> s)
      in s1\<lparr>currentCollectionId := None\<rparr>)"

definition startCollectionSync :: "collection_id \<Rightarrow> 'd sync_state \<Rightarrow> 'd sync_state" where
  "startCollectionSync collectionId s =
     (let s1 = stopCollectionSync s;
          s2 = s1\<lparr>currentCollectionId := Some collectionId\<rparr>;
          eventSource = length (sources s2);
          s3 = newEventSource (CollectionStream collectionId) s2
      in s3\<lparr>currentCollectionSync := Some (eventSource, collectionId)\<rparr>)"

text \<open>
  A JavaScript string is the list of the bytes of its UTF-8 encoding. \<open>whiteSpace\<close> lists
  the encodings of the code points that \<open>String.prototype.trim\<close> strips (the white space
  and line terminators of ECMAScript): TAB, LF, VT, FF, CR, SP, U+00A0, U+1680,
  U+2000 to U+200A, U+2028, U+2029, U+202F, U+205F, U+3000 and U+FEFF.
\<close>

definition whiteSpace :: "string list" where
  "whiteSpace =
     [[CHR 0x09], [CHR 0x0A], [CHR 0x0B], [CHR 0x0C], [CHR 0x0D], [CHR 0x20],
      [CHR 0xC2, CHR 0xA0], [CHR 0xE1, CHR 0x9A, CHR 0x80],
      [CHR 0xE2, CHR 0x80, CHR 0x80], [CHR 0xE2, CHR 0x80, CHR 0x81],
      [CHR 0xE2, CHR 0x80, CHR 0x82], [CHR 0xE2, CHR 0x80, CHR 0x83],
      [CHR 0xE2, CHR 0x80, CHR 0x84], [CHR 0xE2, CHR 0x80, CHR 0x85],
      [CHR 0xE2, CHR 0x80, CHR 0x86], [CHR 0xE2, CHR 0x80, CHR 0x87],
      [CHR 0xE2, CHR 0x80, CHR 0x88], [CHR 0xE2, CHR 0x80, CHR 0x89],
      [CHR 0xE2, CHR 0x80, CHR 0x8A], [CHR 0xE2, CHR 0x80, CHR 0xA8],
      [CHR 0xE2, CHR 0x80, CHR 0xA9], [CHR 0xE2, CHR 0x80, CHR 0xAF],
      [CHR 0xE2, CHR 0x81, CHR 0x9F], [CHR 0xE3, CHR 0x80, CHR 0x80],
      [CHR 0xEF, CHR 0xBB, CHR 0xBF]]"

definition spaceLen :: "string list \<Rightarrow> string \<Rightarrow> nat" where
  "spaceLen ws v =
     (case find (\<lambda>w. take (length w) v = w) ws of None \<Rightarrow> 0 | Some w \<Rightarrow> length w)"

function trimStart :: "string list \<Rightarrow> string \<Rightarrow> string" where
  "trimStart ws v = (if spaceLen ws v = 0 then v else trimStart ws (drop (spaceLen ws v) v))"
  by pat_completeness auto

termination
proof (relation "measure (\<lambda>(ws, v). length v)")
  show "wf (measure (\<lambda>(ws, v). length v))" by simp
next
  fix ws :: "string list" and v :: string
  assume n: "spaceLen ws v \<noteq> 0"
  have "spaceLen ws v \<le> length v"
  proof (cases "find (\<lambda>w. take (length w) v = w) ws")
    case None
    then show ?thesis by (simp add: spaceLen_def)
  next
    case (Some w)
    then have "take (length w) v = w" by (auto simp: find_Some_iff)
    then have "length (take (length w) v) = length w" by simp
    then have "length w \<le> length v" by simp
    with Some show ?thesis by (simp add: spaceLen_def)
  qed
  with n show "((ws, drop (spaceLen ws v) v), ws, v) \<in> measure (\<lambda>(ws, v). length v)"
    by simp
qed

definition trim :: "string \<Rightarrow> string" where
  "trim v = rev (trimStart (map rev whiteSpace) (rev (trimStart whiteSpace v)))"

definition startsWith :: "string \<Rightarrow> string \<Rightarrow> bool" where
  "startsWith v pre = (take (length pre) v = pre)"

fun iconText :: "icon_el \<Rightarrow> string" where
  "iconText (FaIcon c) = []"
| "iconText (PageIcon v) = v"

definition textContent :: "title_span \<Rightarrow> string" where
  "textContent sp = (case spanIcon sp of None \<Rightarrow> [] | Some i \<Rightarrow> iconText i) @ spanText sp"

definition updateItem :: "string \<Rightarrow> string \<Rightarrow> page_item \<Rightarrow> page_item" where
  "updateItem field v item =
     (if field = ''title'' then
        (case titleSpan item of None \<Rightarrow> item
         | Some sp \<Rightarrow> item\<lparr>titleSpan := Some (sp\<lparr>spanText := v\<rparr>)\<rparr>)
      else if field = ''icon'' then
        (case titleSpan item of None \<Rightarrow> item
         | Some sp \<Rightarrow>
             item\<lparr>titleSpan := Some
               \<lparr>spanIcon = (if truthy v
                             then Some (if startsWith v ''fa-'' then FaIcon v else PageIcon v)
                             else None),
                spanText = trim (textContent sp)\<rparr>\<rparr>)
      else item)"

fun updateFirst :: "('a \<Rightarrow> bool) \<Rightarrow> ('a \<Rightarrow> 'a) \<Rightarrow> 'a list \<Rightarrow> 'a list" where
  "updateFirst P f [] = []"
| "updateFirst P f (x # xs) = (if P x then f x # xs else x # updateFirst P f xs)"

definition updatePageInSidebar :: "page_id \<Rightarrow> string \<Rightarrow> string \<Rightarrow> 'd sync_state \<Rightarrow> 'd sync_state" where
  "updatePageInSidebar pageId field v s =
     s\<lparr>sidebar := updateFirst (\<lambda>item. dataPageId item = pageId) (updateItem field v) (sidebar s)\<rparr>"

definition onMetadataChange :: "metadata_event option \<Rightarrow> 'd sync_state \<Rightarrow> 'd sync_state" where
  "onMetadataChange payload s =
     (case payload of None \<Rightarrow> s
      | Some ev \<Rightarrow>
          let s1 = (if evField ev = ''coverImage'' \<and> Some (evPageId ev) = currentPageId s then
                      (if truthy (evValue ev)
                       then s\<lparr>cover := (cover s)\<lparr>coverShown := Some (evValue ev, 50)\<rparr>\<rparr>
                       else s\<lparr>cover := (cover s)\<lparr>coverShown := None\<rparr>\<rparr>)
                    else s);
              s2 = (if evField ev = ''coverPosition'' \<and> Some (evPageId ev) = currentPageId s1 then
                      (if coverImageEl (cover s1)
                       then s1\<lparr>cover := (cover s1)\<lparr>backgroundPositionY := evValue ev @ ''%''\<rparr>\<rparr>
                       else s1)
                    else s1)
          in updatePageInSidebar (evPageId ev) (evField ev) (evValue ev) s2)"

definition onPageListEvent :: "bool \<Rightarrow> 'd sync_state \<Rightarrow> 'd sync_state" where
  "onPageListEvent parses s =
     (if parses \<and> fetchPageList s then s\<lparr>listFetches := Suc (listFetches s)\<rparr> else s)"

subsection \<open>Connectivity and visibility signals\<close>

definition resumePageSync :: "'d yjs \<Rightarrow> 'd sync_state \<Rightarrow> 'd sync_state" where
  "resumePageSync E s =
     (case currentPageId s of
        Some p \<Rightarrow> if truthy p \<and> currentPageSync s = None then startPageSync E p False s else s
      | None \<Rightarrow> s)"

definition resumeCollectionSync :: "'d sync_state \<Rightarrow> 'd sync_state" where
  "resumeCollectionSync s =
     (case currentCollectionId s of
        Some c \<Rightarrow> if truthy c \<and> currentCollectionSync s = None then startCollectionSync c s else s
      | None \<Rightarrow> s)"

definition handleOnline :: "'d yjs \<Rightarrow> 'd sync_state \<Rightarrow> 'd sync_state" where
  "handleOnline E s = showInfo NetworkRestored (resumeCollectionSync (resumePageSync E s))"

definition handleOffline :: "'d sync_state \<Rightarrow> 'd sync_state" where
  "handleOffline s = showInfo NetworkLost s"

definition notOpen :: "'d sync_state \<Rightarrow> nat \<Rightarrow> bool" where
  "notOpen s i = (case lookupAt (sources s) i of Some e \<Rightarrow> readyState e \<noteq> OPEN | None \<Rightarrow> False)"

definition reopenPageSync :: "'d yjs \<Rightarrow> 'd sync_state \<Rightarrow> 'd sync_state" where
  "reopenPageSync E s =
     (case currentPageSync s of
        Some (i, p) \<Rightarrow> if notOpen s i then startPageSync E p False s else s
      | None \<Rightarrow> s)"

definition reopenCollectionSync :: "'d sync_state \<Rightarrow> 'd sync_state" where
  "reopenCollectionSync s =
     (case currentCollectionSync s of
        Some (i, c) \<Rightarrow> if notOpen s i then startCollectionSync c s else s
      | None \<Rightarrow> s)"

definition handleVisibilityChange :: "'d yjs \<Rightarrow> bool \<Rightarrow> 'd sync_state \<Rightarrow> 'd sync_state" where
  "handleVisibilityChange E hidden s =
     (if hidden then s else reopenCollectionSync (reopenPageSync E s))"

subsection \<open>The event loop\<close>

text \<open>
  An event is a call of an exported function, something the browser delivers (a stream
  opening or failing, a named server-sent event with its data decoded, or \<open>None\<close> where
  \<open>JSON.parse\<close> or \<open>atob\<close> throws, an editor notification, a timer firing, a connectivity or
  visibility signal) or the passing of time. A closed event source delivers nothing and a
  timer does not fire before it is due.
\<close>

datatype event =
    StartPageSync page_id bool
  | StopPageSync
  | StartCollectionSync collection_id
  | StopCollectionSync
  | SourceOpen nat
  | SourceError nat
  | Init nat "update option"
  | YjsUpdate nat "update option"
  | UserJoined nat "string option"
  | UserLeft nat
  | MetadataChange nat "metadata_event option"
  | PageCreated nat bool
  | PageDeleted nat bool
  | EditorEdit string
  | EditorFocus
  | EditorBlur
  | Tick nat
  | FireTimer nat
  | Online
  | Offline
  | VisibilityChange bool

definition openStream :: "'d sync_state \<Rightarrow> nat \<Rightarrow> stream option" where
  "openStream s i =
     (case lookupAt (sources s) i of
        Some e \<Rightarrow> if readyState e = OPEN then Some (target e) else None
      | None \<Rightarrow> None)"

definition sourceOpen :: "nat \<Rightarrow> 'd sync_state \<Rightarrow> 'd sync_state" where
  "sourceOpen i s =
     s\<lparr>sources := modify i (\<lambda>e. if readyState e = CONNECTING then e\<lparr>readyState := OPEN\<rparr> else e)
                     (sources s)\<rparr>"

definition sourceError :: "nat \<Rightarrow> 'd sync_state \<Rightarrow> 'd sync_state" where
  "sourceError i s =
     (case lookupAt (sources s) i of None \<Rightarrow> s
      | Some e \<Rightarrow>
          if readyState e = CLOSED then s
          else (case target e of
                  PageStream p enc \<Rightarrow> onPageError i p enc s
                | CollectionStream c \<Rightarrow> closeSource i s))"

definition onPageStream :: "nat \<Rightarrow> ('d sync_state \<Rightarrow> 'd sync_state) \<Rightarrow> 'd sync_state \<Rightarrow> 'd sync_state" where
  "onPageStream i h s = (case openStream s i of Some (PageStream p enc) \<Rightarrow> h s | _ \<Rightarrow> s)"

definition onCollectionStream :: "nat \<Rightarrow> ('d sync_state \<Rightarrow> 'd sync_state) \<Rightarrow> 'd sync_state \<Rightarrow> 'd sync_state" where
  "onCollectionStream i h s = (case openStream s i of Some (CollectionStream c) \<Rightarrow> h s | _ \<Rightarrow> s)"

definition fireTimer :: "'d yjs \<Rightarrow> nat \<Rightarrow> 'd sync_state \<Rightarrow> 'd sync_state" where
  "fireTimer E t s =
     (case find (\<lambda>x. fst x = t) (timers s) of None \<Rightarrow> s
      | Some (t', due, cb) \<Rightarrow>
          if clock s < due then s
          else (case cb of
                  Reconnect p enc \<Rightarrow> reconnectCallback E p enc (clearTimeout t s)
                | Debounce b \<Rightarrow> debounceCallback E (clearTimeout t s)))"

fun step :: "'d yjs \<Rightarrow> event \<Rightarrow> 'd sync_state \<Rightarrow> 'd sync_state" where
  "step E (StartPageSync p enc) s = startPageSync E p enc s"
| "step E StopPageSync s = stopPageSync s"
| "step E (StartCollectionSync c) s = startCollectionSync c s"
| "step E StopCollectionSync s = stopCollectionSync s"
| "step E (SourceOpen i) s = sourceOpen i s"
| "step E (SourceError i) s = sourceError i s"
| "step E (Init i payload) s = onPageStream i (onInit E payload) s"
| "step E (YjsUpdate i payload) s = onPageStream i (onYjsUpdate E payload) s"
| "step E (UserJoined i payload) s =
     onPageStream i (\<lambda>s. case payload of None \<Rightarrow> s
                          | Some name \<Rightarrow> s\<lparr>notices := notices s @ [UserJoinedNotice name]\<rparr>) s"
| "step E (UserLeft i) s = s"
| "step E (MetadataChange i payload) s = onCollectionStream i (onMetadataChange payload) s"
| "step E (PageCreated i parses) s = onCollectionStream i (onPageListEvent parses) s"
| "step E (PageDeleted i parses) s = onCollectionStream i (onPageListEvent parses) s"
| "step E (EditorEdit h) s = editorEdit h s"
| "step E EditorFocus s = editorFocus s"
| "step E EditorBlur s = editorBlur s"
| "step E (Tick n) s = s\<lparr>clock := clock s + n\<rparr>"
| "step E (FireTimer t) s = fireTimer E t s"
| "step E Online s = handleOnline E s"
| "step E Offline s = handleOffline s"
| "step E (VisibilityChange hidden) s = handleVisibilityChange E hidden s"

definition run :: "'d yjs \<Rightarrow> event list \<Rightarrow> 'd sync_state \<Rightarrow> 'd sync_state" where
  "run E evs s = foldl (\<lambda>s' ev. step E ev s') s evs"

record app_state =
  appEditor :: "editor_obj option"
  appCurrentPageId :: "page_id option"
  appCurrentCollectionId :: "collection_id option"
  appFetchPageList :: bool

definition moduleLoad :: "page_item list \<Rightarrow> cover_view \<Rightarrow> 'd sync_state" where
  "moduleLoad items cv =
     \<lparr>currentPageSync = None, currentCollectionSync = None, ydoc = None,
      yXmlFragment = False, yMetadata = False, editor = None, currentPageId = None,
      currentCollectionId = None, fetchPageList = False, sources = [], bindings = [],
      timers = [], nextTimer = 1, clock = 0, sent = [], sidebar = items, cover = cv,
      notices = [], listFetches = 0\<rparr>"

definition initSyncManager :: "app_state \<Rightarrow> 'd sync_state \<Rightarrow> 'd sync_state" where
  "initSyncManager app s =
     s\<lparr>editor := appEditor app, currentPageId := appCurrentPageId app,
       currentCollectionId := appCurrentCollectionId app,
       fetchPageList := appFetchPageList app\<rparr>"

section \<open>Views, invariants and a concrete engine\<close>

text \<open>
  The register engine is the smallest instance of the engine interface: the document is
  the value stored under the key \<open>content\<close>, an update is the bytes of a new value, the empty
  update is the one \<open>Y.applyUpdate\<close> rejects, and a transaction that changes nothing
  notifies nobody. It serves to run the module on concrete inputs.
\<close>

definition registerEngine :: "string option yjs" where
  "registerEngine =
     \<lparr>newDoc = None,
      applyUpdate = (\<lambda>d u. if u = [] then None
                            else if d = Some (map char_of u) then Some (d, None)
                            else Some (Some (map char_of u), Some u)),
      metaGet = (\<lambda>d. d),
      metaSet = (\<lambda>d c. (Some c, Some (map of_char c)))\<rparr>"

definition plainEditor :: "string \<Rightarrow> editor_obj" where
  "plainEditor h =
     \<lparr>html = h, hasFocus = False, updateHandlers = [], blurHandlers = [],
      setPendingRemoteUpdate = None, syncIsUpdating = None\<rparr>"

definition plainApp :: "string \<Rightarrow> app_state" where
  "plainApp h =
     \<lparr>appEditor = Some (plainEditor h), appCurrentPageId = None,
      appCurrentCollectionId = None, appFetchPageList = True\<rparr>"

definition noCover :: cover_view where
  "noCover = \<lparr>coverShown = None, coverImageEl = False, backgroundPositionY = []\<rparr>"

definition merged :: "'d yjs \<Rightarrow> 'd \<Rightarrow> update \<Rightarrow> 'd" where
  "merged E d u = (case applyUpdate E d u of Some (d', em) \<Rightarrow> d' | None \<Rightarrow> d)"

definition links ::
  "'d sync_state \<Rightarrow>
     event_source list \<times> (nat \<times> page_id) option \<times> (nat \<times> collection_id) option \<times>
     page_id option \<times> bool \<times> bool \<times> bool" where
  "links s = (sources s, currentPageSync s, currentCollectionSync s, currentPageId s,
              ydoc s = None, yXmlFragment s, yMetadata s)"

text \<open>An event that is neither a start, a stop, a stream opening or failing, a timer nor a
  connectivity or visibility signal leaves the connections as they are.\<close>

fun connectionEvent :: "event \<Rightarrow> bool" where
  "connectionEvent (StartPageSync p enc) = True"
| "connectionEvent StopPageSync = True"
| "connectionEvent (StartCollectionSync c) = True"
| "connectionEvent StopCollectionSync = True"
| "connectionEvent (SourceOpen i) = True"
| "connectionEvent (SourceError i) = True"
| "connectionEvent (FireTimer t) = True"
| "connectionEvent Online = True"
| "connectionEvent (VisibilityChange hidden) = True"
| "connectionEvent ev = False"

definition livePage :: "event_source \<Rightarrow> bool" where
  "livePage e = (readyState e \<noteq> CLOSED \<and> (case target e of PageStream p enc \<Rightarrow> True | CollectionStream c \<Rightarrow> False))"

definition liveCollection :: "event_source \<Rightarrow> bool" where
  "liveCollection e = (readyState e \<noteq> CLOSED \<and> (case target e of PageStream p enc \<Rightarrow> False | CollectionStream c \<Rightarrow> True))"

definition activePageSyncs :: "'d sync_state \<Rightarrow> nat list" where
  "activePageSyncs s = filter (\<lambda>i. livePage (sources s ! i)) [0..<length (sources s)]"

definition activeCollectionSyncs :: "'d sync_state \<Rightarrow> nat list" where
  "activeCollectionSyncs s = filter (\<lambda>i. liveCollection (sources s ! i)) [0..<length (sources s)]"

definition single :: "'d sync_state \<Rightarrow> bool" where
  "single s =
     (\<forall>i < length (sources s).
        (livePage (sources s ! i) \<longrightarrow> map_option fst (currentPageSync s) = Some i) \<and>
        (liveCollection (sources s ! i) \<longrightarrow> map_option fst (currentCollectionSync s) = Some i))"


text \<open>No stream, current sync or current page id names page \<open>p\<close>.\<close>

fun onPage :: "page_id \<Rightarrow> stream \<Rightarrow> bool" where
  "onPage p (PageStream q enc) = (q = p)"
| "onPage p (CollectionStream c) = False"

definition pageStreams :: "page_id \<Rightarrow> 'd sync_state \<Rightarrow> event_source list" where
  "pageStreams p s = filter (\<lambda>e. onPage p (target e)) (sources s)"

definition unsynced :: "page_id \<Rightarrow> 'd sync_state \<Rightarrow> bool" where
  "unsynced p s =
     (pageStreams p s = [] \<and> currentPageId s \<noteq> Some p \<and>
      (case currentPageSync s of Some (i, q) \<Rightarrow> q \<noteq> p | None \<Rightarrow> True))"

definition targets :: "'d sync_state \<Rightarrow> stream list" where
  "targets s = map target (sources s)"

definition demoTrace :: "event list" where
  "demoTrace = [StartPageSync ''p2'' False, StartPageSync ''p1'' True, SourceOpen 0, SourceError 0,
     Tick 3000, FireTimer 1, Online, VisibilityChange False]"

definition idle :: "nat \<Rightarrow> 'd sync_state \<Rightarrow> bool" where
  "idle b s =
     (case lookupAt (bindings s) b of None \<Rightarrow> True
      | Some x \<Rightarrow> (case remoteUpdatePending x of None \<Rightarrow> True | Some c \<Rightarrow> \<not> truthy c))"

definition blurView :: "'d sync_state \<Rightarrow> (bool \<times> nat list) option" where
  "blurView s = map_option (\<lambda>ed. (hasFocus ed, blurHandlers ed)) (editor s)"

fun gateEvent :: "nat \<Rightarrow> event \<Rightarrow> bool" where
  "gateEvent i (YjsUpdate j payload) = (j = i)"
| "gateEvent i (EditorEdit h) = True"
| "gateEvent i EditorFocus = True"
| "gateEvent i EditorBlur = True"
| "gateEvent i (Tick n) = True"
| "gateEvent i ev = False"

fun remoteUpdates :: "event list \<Rightarrow> update list" where
  "remoteUpdates [] = []"
| "remoteUpdates (YjsUpdate i (Some u) # evs) = u # remoteUpdates evs"
| "remoteUpdates (ev # evs) = remoteUpdates evs"

fun quietEvent :: "event \<Rightarrow> bool" where
  "quietEvent (EditorEdit h) = True"
| "quietEvent EditorFocus = True"
| "quietEvent (Tick n) = True"
| "quietEvent (FireTimer t) = True"
| "quietEvent ev = False"

definition pview :: "'d sync_state \<Rightarrow> string option list \<times> nat list option" where
  "pview s = (map remoteUpdatePending (bindings s), map_option blurHandlers (editor s))"

definition bytes :: "string \<Rightarrow> update" where
  "bytes c = map of_char c"

definition localEditTrace :: "event list" where
  "localEditTrace =
     [StartPageSync ''p1'' False, SourceOpen 0, Init 0 (Some (bytes ''<p>x</p>'')), EditorFocus,
      YjsUpdate 0 (Some (bytes ''<p>remote</p>'')), EditorEdit ''<p>local</p>'', Tick 200,
      FireTimer 1, EditorBlur]"

definition gateState :: "string option sync_state" where
  "gateState =
     run registerEngine
       [StartPageSync ''p1'' False, SourceOpen 0, Init 0 (Some (bytes ''<p>x</p>'')), EditorFocus]
       (initSyncManager (plainApp ''<p>x</p>'') (moduleLoad [] noCover))"

definition gateEditor :: editor_obj where
  "gateEditor =
     \<lparr>html = ''<p>x</p>'', hasFocus = True, updateHandlers = [0], blurHandlers = [0],
      setPendingRemoteUpdate = Some 0, syncIsUpdating = Some False\<rparr>"

definition freshBinding :: binding where
  "freshBinding = \<lparr>remoteUpdatePending = None, updateTimeout = None, isUpdating = False\<rparr>"

definition afterLocalEdit :: "string option sync_state" where
  "afterLocalEdit =
     run registerEngine localEditTrace (initSyncManager (plainApp ''<p>x</p>'') (moduleLoad [] noCover))"

definition twoPages :: "page_item list" where
  "twoPages =
     [\<lparr>dataPageId = ''P1'', titleSpan = Some \<lparr>spanIcon = Some (FaIcon ''fa-solid fa-book''), spanText = ''Old''\<rparr>\<rparr>,
      \<lparr>dataPageId = ''P2'', titleSpan = Some \<lparr>spanIcon = None, spanText = ''Other''\<rparr>\<rparr>]"

definition titleChange :: metadata_event where
  "titleChange = \<lparr>evField = ''title'', evPageId = ''P1'', evValue = ''New Title''\<rparr>"

definition viewingP2 :: "string option sync_state" where
  "viewingP2 =
     run registerEngine
       [StartPageSync ''P2'' False, StartCollectionSync ''C1'', SourceOpen 1]
       (initSyncManager (plainApp ''<p>x</p>'') (moduleLoad twoPages noCover))"

definition failedStream :: "string option sync_state" where
  "failedStream =
     run registerEngine [StartPageSync ''p1'' False, SourceOpen 0]
       (initSyncManager (plainApp ''<p>x</p>'') (moduleLoad [] noCover))"

text \<open>
  The debounce of the editor's update handler. A pending timer is \<open>tracked\<close> when it is the
  debounce timer of a registered update handler whose binding remembers its id; timer ids
  stored in bindings are below the id counter and no two bindings store the same id
  (\<open>uniqueIds\<close>); a state is \<open>covered\<close> when every registered handler that is not muted has a
  debounce timer pending. \<open>pendingWrites e s\<close> adds that every pending timer was set \<open>e\<close>
  milliseconds ago, so that it is due 200 ms after the last edit. A burst is \<open>paced\<close> when it
  consists of edits, pauses that stay below 200 ms since the last edit, and attempts to
  fire timers; \<open>sinceEdit\<close> is the time since its last edit and \<open>lastHtml\<close> the content of
  its last edit.
\<close>

definition timerTracked :: "nat list \<Rightarrow> 'd sync_state \<Rightarrow> timer \<Rightarrow> bool" where
  "timerTracked hs s x =
     (case snd (snd x) of
        Reconnect p enc \<Rightarrow> False
      | Debounce b \<Rightarrow>
          b \<in> set hs \<and>
          (case lookupAt (bindings s) b of
             None \<Rightarrow> False
           | Some y \<Rightarrow> updateTimeout y = Some (fst x) \<and> \<not> isUpdating y))"

definition handlersOf :: "'d sync_state \<Rightarrow> nat list" where
  "handlersOf s = (case editor s of None \<Rightarrow> [] | Some ed \<Rightarrow> updateHandlers ed)"

definition tracked :: "'d sync_state \<Rightarrow> bool" where
  "tracked s = (editor s \<noteq> None \<and> list_all (timerTracked (handlersOf s) s) (timers s))"

definition uniqueIds :: "'d sync_state \<Rightarrow> bool" where
  "uniqueIds s =
     list_all
       (\<lambda>i. case updateTimeout (bindings s ! i) of
              None \<Rightarrow> True
            | Some t \<Rightarrow>
                t < nextTimer s \<and>
                list_all (\<lambda>j. updateTimeout (bindings s ! j) = Some t \<longrightarrow> j = i)
                  [0..<length (bindings s)])
       [0..<length (bindings s)]"

definition rescheduling :: "nat \<Rightarrow> nat list \<Rightarrow> nat list \<Rightarrow> 'd sync_state \<Rightarrow> bool" where
  "rescheduling c hs rest s =
     (\<forall>x \<in> set (timers s). timerTracked hs s x \<and>
        (fst (snd x) = c + 200 \<or> (\<exists>b \<in> set rest. snd (snd x) = Debounce b)))"

definition hasTimer :: "nat \<Rightarrow> nat \<Rightarrow> 'd sync_state \<Rightarrow> bool" where
  "hasTimer c b s =
     (\<exists>x t. lookupAt (bindings s) b = Some x \<and> updateTimeout x = Some t \<and>
            (t, c + 200, Debounce b) \<in> set (timers s))"

definition covered :: "'d sync_state \<Rightarrow> bool" where
  "covered s =
     list_all (\<lambda>b. case lookupAt (bindings s) b of
                    None \<Rightarrow> True
                  | Some x \<Rightarrow> isUpdating x \<or> list_ex (\<lambda>y. snd (snd y) = Debounce b) (timers s))
       (handlersOf s)"

definition pendingWrites :: "nat \<Rightarrow> 'd sync_state \<Rightarrow> bool" where
  "pendingWrites e s =
     (tracked s \<and> uniqueIds s \<and> covered s \<and>
      (\<forall>x \<in> set (timers s). fst (snd x) + e = clock s + 200))"

fun paced :: "nat \<Rightarrow> event list \<Rightarrow> bool" where
  "paced e [] = True"
| "paced e (EditorEdit h # evs) = paced 0 evs"
| "paced e (Tick n # evs) = (e + n < 200 \<and> paced (e + n) evs)"
| "paced e (FireTimer t # evs) = paced e evs"
| "paced e (ev # evs) = False"

fun sinceEdit :: "nat \<Rightarrow> event list \<Rightarrow> nat" where
  "sinceEdit e [] = e"
| "sinceEdit e (EditorEdit h # evs) = sinceEdit 0 evs"
| "sinceEdit e (Tick n # evs) = sinceEdit (e + n) evs"
| "sinceEdit e (ev # evs) = sinceEdit e evs"

fun lastHtml :: "string \<Rightarrow> event list \<Rightarrow> string" where
  "lastHtml h [] = h"
| "lastHtml h (EditorEdit h' # evs) = lastHtml h' evs"
| "lastHtml h (ev # evs) = lastHtml h evs"

definition keystrokes :: "event list" where
  "keystrokes = [Tick 50, EditorEdit ''<p>xab</p>'', Tick 50, EditorEdit ''<p>xabc</p>'', Tick 199, FireTimer 3]"

section \<open>Frame and invariant lemmas\<close>

lemma modify_length [simp]: "length (modify i f xs) = length xs"
  by (simp add: modify_def)

lemma modify_nth: "j < length xs \<Longrightarrow> modify i f xs ! j = (if j = i then f (xs ! j) else xs ! j)"
  by (simp add: modify_def)

lemma links_update [simp]:
  "links (s\<lparr>editor := c\<rparr>) = links s"
  "links (s\<lparr>bindings := d\<rparr>) = links s"
  "links (s\<lparr>timers := e\<rparr>) = links s"
  "links (s\<lparr>nextTimer := f\<rparr>) = links s"
  "links (s\<lparr>clock := f\<rparr>) = links s"
  "links (s\<lparr>sent := g\<rparr>) = links s"
  "links (s\<lparr>sidebar := h\<rparr>) = links s"
  "links (s\<lparr>cover := i\<rparr>) = links s"
  "links (s\<lparr>notices := j\<rparr>) = links s"
  "links (s\<lparr>listFetches := k\<rparr>) = links s"
  "links (s\<lparr>fetchPageList := l\<rparr>) = links s"
  "links (s\<lparr>currentCollectionId := m\<rparr>) = links s"
  by (simp_all add: links_def)

lemma links_ydoc_update [simp]: "ydoc s \<noteq> None \<Longrightarrow> links (s\<lparr>ydoc := Some y\<rparr>) = links s"
  by (simp add: links_def)

lemma links_fireObservers [simp]: "links (fireObservers origin em s) = links s"
proof -
  have "links (foldl (\<lambda>s' p. ydocUpdateHandler p u origin s') s ps) = links s" for u ps
    by (induction ps arbitrary: s) (simp_all add: ydocUpdateHandler_def sendYjsUpdate_def)
  then show ?thesis by (simp add: fireObservers_def split: option.splits)
qed

lemma links_metadataSet [simp]: "links (metadataSet E c s) = links s"
  by (simp add: metadataSet_def split: option.splits prod.splits)

lemma links_setupEditorBinding [simp]: "links (setupEditorBinding E s) = links s"
  by (simp add: setupEditorBinding_def Let_def split: option.splits)

lemma links_onInit [simp]: "links (onInit E payload s) = links s"
  by (simp add: onInit_def split: option.splits)

lemma links_applyRemoteContent [simp]: "links (applyRemoteContent c s) = links s"
  by (simp add: applyRemoteContent_def setPending_def setContent_def split: option.splits)

lemma links_onYjsUpdate [simp]: "links (onYjsUpdate E payload s) = links s"
  by (simp add: onYjsUpdate_def Let_def split: option.splits)

lemma links_debounceCallback [simp]: "links (debounceCallback E s) = links s"
  by (simp add: debounceCallback_def split: option.splits)

lemma links_onEditorUpdate [simp]: "links (onEditorUpdate b s) = links s"
  by (simp add: onEditorUpdate_def Let_def setTimeout_def clearTimeout_def split: option.splits)

lemma links_onEditorBlur [simp]: "links (onEditorBlur b s) = links s"
  by (simp add: onEditorBlur_def Let_def setContent_def split: option.splits)

lemma links_editorEdit [simp]: "links (editorEdit h s) = links s"
proof -
  have "links (foldl (\<lambda>s' b. onEditorUpdate b s') t bs) = links t" for t :: "'a sync_state" and bs
    by (induction bs arbitrary: t) simp_all
  then show ?thesis by (simp add: editorEdit_def split: option.splits)
qed

lemma links_editorBlur [simp]: "links (editorBlur s) = links s"
proof -
  have "links (foldl (\<lambda>s' b. onEditorBlur b s') t bs) = links t" for t :: "'a sync_state" and bs
    by (induction bs arbitrary: t) simp_all
  then show ?thesis by (simp add: editorBlur_def split: option.splits)
qed

lemma links_editorFocus [simp]: "links (editorFocus s) = links s"
  by (simp add: editorFocus_def)

lemma links_onMetadataChange [simp]: "links (onMetadataChange payload s) = links s"
  by (simp add: onMetadataChange_def Let_def updatePageInSidebar_def split: option.splits)

lemma links_onPageListEvent [simp]: "links (onPageListEvent parses s) = links s"
  by (simp add: onPageListEvent_def)

lemma links_showInfo [simp]: "links (showInfo n s) = links s"
  by (simp add: showInfo_def)

lemma links_clearTimeout [simp]: "links (clearTimeout t s) = links s"
  by (simp add: clearTimeout_def)

lemma links_setTimeout [simp]: "links (setTimeout cb d s) = links s"
  by (simp add: setTimeout_def)

lemma links_onPageStream: "(\<And>t. links (h t) = links t) \<Longrightarrow> links (onPageStream i h s) = links s"
  by (simp add: onPageStream_def split: option.splits stream.splits)

lemma links_onCollectionStream: "(\<And>t. links (h t) = links t) \<Longrightarrow> links (onCollectionStream i h s) = links s"
  by (simp add: onCollectionStream_def split: option.splits stream.splits)

lemma links_step: "\<not> connectionEvent ev \<Longrightarrow> links (step E ev s) = links s"
  by (cases ev) (simp_all add: links_onPageStream links_onCollectionStream handleOffline_def split: option.splits)

lemma single_links: "links s' = links s \<Longrightarrow> single s' = single s"
  by (simp add: links_def single_def)

lemma livePage_closed [simp]: "\<not> livePage (e\<lparr>readyState := CLOSED\<rparr>)"
  and liveCollection_closed [simp]: "\<not> liveCollection (e\<lparr>readyState := CLOSED\<rparr>)"
  by (simp_all add: livePage_def liveCollection_def)

lemma sources_closeSource: "sources (closeSource i s) = modify i (\<lambda>e. e\<lparr>readyState := CLOSED\<rparr>) (sources s)"
  by (simp add: closeSource_def)

lemma other_closeSource [simp]:
  "currentPageSync (closeSource i s) = currentPageSync s"
  "currentCollectionSync (closeSource i s) = currentCollectionSync s"
  "currentPageId (closeSource i s) = currentPageId s"
  by (simp_all add: closeSource_def)

lemma single_closeSource: "single s \<Longrightarrow> single (closeSource i s)"
  by (auto simp: single_def sources_closeSource modify_nth)

lemma sources_stopPageSync:
  "sources (stopPageSync s) =
     (case currentPageSync s of Some (i, p) \<Rightarrow> modify i (\<lambda>e. e\<lparr>readyState := CLOSED\<rparr>) (sources s)
      | None \<Rightarrow> sources s)"
  by (simp add: stopPageSync_def Let_def closeSource_def split: option.splits)

lemma fields_stopPageSync [simp]:
  "currentPageSync (stopPageSync s) = None"
  "currentCollectionSync (stopPageSync s) = currentCollectionSync s"
  "currentPageId (stopPageSync s) = None"
  "ydoc (stopPageSync s) = None"
  "yXmlFragment (stopPageSync s) = (yXmlFragment s \<and> ydoc s = None)"
  "yMetadata (stopPageSync s) = (yMetadata s \<and> ydoc s = None)"
  by (auto simp add: stopPageSync_def Let_def closeSource_def split: option.splits)

lemma stopPageSync_no_live:
  assumes "single s" and "i < length (sources s)"
  shows "\<not> livePage (sources (stopPageSync s) ! i)"
proof (cases "currentPageSync s")
  case None
  with assms show ?thesis by (simp add: single_def sources_stopPageSync)
next
  case (Some ip)
  obtain a b where ip: "ip = (a, b)" by (cases ip)
  show ?thesis
  proof (cases "i = a")
    case True
    with assms Some ip show ?thesis by (simp add: sources_stopPageSync modify_nth)
  next
    case False
    with assms Some ip have "\<not> livePage (sources s ! i)" by (auto simp: single_def)
    with assms Some ip False show ?thesis by (simp add: sources_stopPageSync modify_nth)
  qed
qed

lemma stopPageSync_liveCollection:
  assumes "i < length (sources s)" and "liveCollection (sources (stopPageSync s) ! i)"
  shows "liveCollection (sources s ! i)"
proof (cases "currentPageSync s")
  case None
  with assms show ?thesis by (simp add: sources_stopPageSync)
next
  case (Some ip)
  obtain a b where ip: "ip = (a, b)" by (cases ip)
  from assms Some ip show ?thesis
    by (cases "i = a") (simp_all add: sources_stopPageSync modify_nth)
qed

lemma length_sources_stopPageSync [simp]: "length (sources (stopPageSync s)) = length (sources s)"
  by (simp add: sources_stopPageSync split: option.splits)

lemma single_stopPageSync: "single s \<Longrightarrow> single (stopPageSync s)"
  unfolding single_def
proof (intro allI impI conjI)
  fix i assume s: "\<forall>i<length (sources s).
            (livePage (sources s ! i) \<longrightarrow> map_option fst (currentPageSync s) = Some i) \<and>
            (liveCollection (sources s ! i) \<longrightarrow> map_option fst (currentCollectionSync s) = Some i)"
    and i: "i < length (sources (stopPageSync s))"
  from s have ss: "single s" by (simp add: single_def)
  { assume "livePage (sources (stopPageSync s) ! i)"
    with stopPageSync_no_live [OF ss, of i] i
    show "map_option fst (currentPageSync (stopPageSync s)) = Some i" by simp }
  { assume "liveCollection (sources (stopPageSync s) ! i)"
    with stopPageSync_liveCollection [of i s] i have "liveCollection (sources s ! i)" by simp
    with s i show "map_option fst (currentCollectionSync (stopPageSync s)) = Some i" by simp }
qed

lemma startPageSync_fields:
  "sources (startPageSync E p False s) =
     sources (stopPageSync s) @ [\<lparr>target = PageStream p False, readyState = CONNECTING\<rparr>]"
  "currentPageSync (startPageSync E p False s) = Some (length (sources s), p)"
  "currentCollectionSync (startPageSync E p False s) = currentCollectionSync s"
  "currentPageId (startPageSync E p False s) = Some p"
  "ydoc (startPageSync E p False s) = Some \<lparr>doc = newDoc E, observers = [p]\<rparr>"
  "yXmlFragment (startPageSync E p False s)"
  "yMetadata (startPageSync E p False s)"
  by (simp_all add: startPageSync_def Let_def newEventSource_def)

lemma single_startPageSync_plain:
  assumes s: "single s"
  shows "single (startPageSync E p False s)"
  unfolding single_def
proof (intro allI impI)
  fix i assume i: "i < length (sources (startPageSync E p False s))"
  show "(livePage (sources (startPageSync E p False s) ! i) \<longrightarrow>
           map_option fst (currentPageSync (startPageSync E p False s)) = Some i) \<and>
        (liveCollection (sources (startPageSync E p False s) ! i) \<longrightarrow>
           map_option fst (currentCollectionSync (startPageSync E p False s)) = Some i)"
  proof (cases "i < length (sources s)")
    case True
    from True have nth: "sources (startPageSync E p False s) ! i = sources (stopPageSync s) ! i"
      by (simp add: startPageSync_fields nth_append)
    have a: "\<not> livePage (sources (stopPageSync s) ! i)"
      using stopPageSync_no_live [OF s True] .
    have b: "liveCollection (sources (stopPageSync s) ! i) \<Longrightarrow>
               map_option fst (currentCollectionSync s) = Some i"
      using stopPageSync_liveCollection [OF True] s True by (simp add: single_def)
    from a b show ?thesis
      by (simp add: nth startPageSync_fields(2,3))
  next
    case False
    with i have "i = length (sources s)"
      by (simp add: startPageSync_fields)
    then show ?thesis
      by (simp add: startPageSync_fields nth_append liveCollection_def)
  qed
qed

lemma single_startPageSync: "single s \<Longrightarrow> single (startPageSync E p enc s)"
proof (cases enc)
  case True
  then have "links (startPageSync E p enc s) = links s"
    by (simp add: startPageSync_def)
  from single_links [OF this] show "single s \<Longrightarrow> ?thesis" by simp
next
  case False
  then show "single s \<Longrightarrow> ?thesis" by (simp add: single_startPageSync_plain)
qed

lemma sources_stopCollectionSync:
  "sources (stopCollectionSync s) =
     (case currentCollectionSync s of Some (i, c) \<Rightarrow> modify i (\<lambda>e. e\<lparr>readyState := CLOSED\<rparr>) (sources s)
      | None \<Rightarrow> sources s)"
  by (simp add: stopCollectionSync_def Let_def closeSource_def split: option.splits)

lemma fields_stopCollectionSync [simp]:
  "currentCollectionSync (stopCollectionSync s) = None"
  "currentPageSync (stopCollectionSync s) = currentPageSync s"
  "currentPageId (stopCollectionSync s) = currentPageId s"
  "currentCollectionId (stopCollectionSync s) = None"
  by (auto simp add: stopCollectionSync_def Let_def closeSource_def split: option.splits)

lemma length_sources_stopCollectionSync [simp]:
  "length (sources (stopCollectionSync s)) = length (sources s)"
  by (simp add: sources_stopCollectionSync split: option.splits)

lemma stopCollectionSync_no_live:
  assumes "single s" and "i < length (sources s)"
  shows "\<not> liveCollection (sources (stopCollectionSync s) ! i)"
proof (cases "currentCollectionSync s")
  case None
  with assms show ?thesis by (simp add: single_def sources_stopCollectionSync)
next
  case (Some ic)
  obtain a b where ic: "ic = (a, b)" by (cases ic)
  show ?thesis
  proof (cases "i = a")
    case True
    with assms Some ic show ?thesis by (simp add: sources_stopCollectionSync modify_nth)
  next
    case False
    with assms Some ic have "\<not> liveCollection (sources s ! i)" by (auto simp: single_def)
    with assms Some ic False show ?thesis by (simp add: sources_stopCollectionSync modify_nth)
  qed
qed

lemma stopCollectionSync_livePage:
  assumes "i < length (sources s)" and "livePage (sources (stopCollectionSync s) ! i)"
  shows "livePage (sources s ! i)"
proof (cases "currentCollectionSync s")
  case None
  with assms show ?thesis by (simp add: sources_stopCollectionSync)
next
  case (Some ic)
  obtain a b where ic: "ic = (a, b)" by (cases ic)
  from assms Some ic show ?thesis
    by (cases "i = a") (simp_all add: sources_stopCollectionSync modify_nth)
qed

lemma single_stopCollectionSync:
  assumes s: "single s"
  shows "single (stopCollectionSync s)"
  unfolding single_def
proof (intro allI impI conjI)
  fix i assume i: "i < length (sources (stopCollectionSync s))"
  { assume "livePage (sources (stopCollectionSync s) ! i)"
    with stopCollectionSync_livePage [of i s] i have "livePage (sources s ! i)" by simp
    with s i show "map_option fst (currentPageSync (stopCollectionSync s)) = Some i"
      by (simp add: single_def) }
  { assume "liveCollection (sources (stopCollectionSync s) ! i)"
    with stopCollectionSync_no_live [OF s, of i] i
    show "map_option fst (currentCollectionSync (stopCollectionSync s)) = Some i" by simp }
qed

lemma startCollectionSync_fields:
  "sources (startCollectionSync c s) =
     sources (stopCollectionSync s) @ [\<lparr>target = CollectionStream c, readyState = CONNECTING\<rparr>]"
  "currentCollectionSync (startCollectionSync c s) = Some (length (sources s), c)"
  "currentPageSync (startCollectionSync c s) = currentPageSync s"
  "currentPageId (startCollectionSync c s) = currentPageId s"
  "currentCollectionId (startCollectionSync c s) = Some c"
  by (simp_all add: startCollectionSync_def Let_def newEventSource_def)

lemma single_startCollectionSync:
  assumes s: "single s"
  shows "single (startCollectionSync c s)"
  unfolding single_def
proof (intro allI impI)
  fix i assume i: "i < length (sources (startCollectionSync c s))"
  show "(livePage (sources (startCollectionSync c s) ! i) \<longrightarrow>
           map_option fst (currentPageSync (startCollectionSync c s)) = Some i) \<and>
        (liveCollection (sources (startCollectionSync c s) ! i) \<longrightarrow>
           map_option fst (currentCollectionSync (startCollectionSync c s)) = Some i)"
  proof (cases "i < length (sources s)")
    case True
    from True have nth: "sources (startCollectionSync c s) ! i = sources (stopCollectionSync s) ! i"
      by (simp add: startCollectionSync_fields nth_append)
    have a: "\<not> liveCollection (sources (stopCollectionSync s) ! i)"
      using stopCollectionSync_no_live [OF s True] .
    have b: "livePage (sources (stopCollectionSync s) ! i) \<Longrightarrow>
               map_option fst (currentPageSync s) = Some i"
      using stopCollectionSync_livePage [OF True] s True by (simp add: single_def)
    from a b show ?thesis
      by (simp add: nth startCollectionSync_fields(2,3))
  next
    case False
    with i have "i = length (sources s)"
      by (simp add: startCollectionSync_fields)
    then show ?thesis
      by (simp add: startCollectionSync_fields nth_append livePage_def)
  qed
qed

lemma single_sourceOpen: "single s \<Longrightarrow> single (sourceOpen i s)"
  by (auto simp: single_def sourceOpen_def modify_nth livePage_def liveCollection_def split: if_splits)

lemma single_sourceError: "single s \<Longrightarrow> single (sourceError i s)"
proof -
  assume s: "single s"
  have t: "single (setTimeout cb d (closeSource i s))" for cb d
    using single_links [of "setTimeout cb d (closeSource i s)" "closeSource i s"]
      single_closeSource [OF s, of i] by simp
  show ?thesis
    using s t single_closeSource [OF s, of i]
    by (simp add: sourceError_def onPageError_def split: option.splits stream.splits)
qed

lemma single_reconnectCallback: "single s \<Longrightarrow> single (reconnectCallback E p enc s)"
  by (simp add: reconnectCallback_def single_startPageSync)

lemma single_fireTimer: "single s \<Longrightarrow> single (fireTimer E t s)"
proof -
  assume s: "single s"
  have c: "single (clearTimeout t s)"
    using single_links [of "clearTimeout t s" s] s by simp
  have d: "single (debounceCallback E (clearTimeout t s))"
    using single_links [of "debounceCallback E (clearTimeout t s)" "clearTimeout t s"] c by simp
  show ?thesis
    using s c d single_reconnectCallback [OF c]
    by (simp add: fireTimer_def split: option.splits prod.splits timer_callback.splits)
qed

lemma single_handleOnline:
  assumes "single s"
  shows "single (handleOnline E s)"
proof -
  have 1: "single (resumePageSync E s)"
    using assms by (simp add: resumePageSync_def single_startPageSync split: option.splits)
  have 2: "single (resumeCollectionSync (resumePageSync E s))"
    using 1 by (simp add: resumeCollectionSync_def single_startCollectionSync split: option.splits)
  from 2 single_links [of "handleOnline E s" "resumeCollectionSync (resumePageSync E s)"]
  show ?thesis by (simp add: handleOnline_def)
qed

lemma single_handleVisibilityChange:
  assumes "single s"
  shows "single (handleVisibilityChange E hidden s)"
proof -
  have 1: "single (reopenPageSync E s)"
    using assms by (simp add: reopenPageSync_def single_startPageSync split: option.splits)
  have 2: "single (reopenCollectionSync (reopenPageSync E s))"
    using 1 by (simp add: reopenCollectionSync_def single_startCollectionSync split: option.splits)
  from assms 2 show ?thesis by (simp add: handleVisibilityChange_def)
qed

lemma single_step:
  assumes "single s"
  shows "single (step E ev s)"
proof (cases "connectionEvent ev")
  case False
  from single_links [OF links_step [OF False], of E s] assms show ?thesis by simp
next
  case True
  with assms show ?thesis
    by (cases ev)
       (simp_all add: single_startPageSync single_stopPageSync single_startCollectionSync
          single_stopCollectionSync single_sourceOpen single_sourceError single_fireTimer
          single_handleOnline single_handleVisibilityChange)
qed
lemma single_run: "single s \<Longrightarrow> single (run E evs s)"
  unfolding run_def by (induction evs arbitrary: s) (simp_all add: single_step)

lemma single_initial: "single (initSyncManager app (moduleLoad items cv))"
  by (simp add: single_def initSyncManager_def moduleLoad_def)

lemma active_le_one:
  assumes "\<forall>i \<in> set xs. P i \<longrightarrow> i = k" and "distinct xs"
  shows "length (filter P xs) \<le> 1"
proof -
  have sub: "set (filter P xs) \<subseteq> {k}" using assms by auto
  have "card (set (filter P xs)) \<le> card {k}"
    by (rule card_mono) (simp_all add: sub del: set_filter)
  moreover have "distinct (filter P xs)" using assms by simp
  then have "length (filter P xs) = card (set (filter P xs))"
    by (rule distinct_card [symmetric])
  ultimately show ?thesis by simp
qed

lemma single_activePage: "single s \<Longrightarrow> length (activePageSyncs s) \<le> 1"
proof -
  assume s: "single s"
  show ?thesis
  proof (cases "currentPageSync s")
    case None
    with s have "filter (\<lambda>i. livePage (sources s ! i)) [0..<length (sources s)] = []"
      by (auto simp: single_def filter_empty_conv)
    then show ?thesis by (simp add: activePageSyncs_def)
  next
    case (Some ip)
    with s have "\<forall>i \<in> set [0..<length (sources s)]. livePage (sources s ! i) \<longrightarrow> i = fst ip"
      by (auto simp: single_def)
    from active_le_one [OF this] show ?thesis by (simp add: activePageSyncs_def)
  qed
qed

lemma single_activeCollection: "single s \<Longrightarrow> length (activeCollectionSyncs s) \<le> 1"
proof -
  assume s: "single s"
  show ?thesis
  proof (cases "currentCollectionSync s")
    case None
    with s have "filter (\<lambda>i. liveCollection (sources s ! i)) [0..<length (sources s)] = []"
      by (auto simp: single_def filter_empty_conv)
    then show ?thesis by (simp add: activeCollectionSyncs_def)
  next
    case (Some ip)
    with s have "\<forall>i \<in> set [0..<length (sources s)]. liveCollection (sources s ! i) \<longrightarrow> i = fst ip"
      by (auto simp: single_def)
    from active_le_one [OF this] show ?thesis by (simp add: activeCollectionSyncs_def)
  qed
qed

lemma step_preserves:
  fixes I :: "'d sync_state \<Rightarrow> bool"
  assumes frame: "\<And>s s'. links s' = links s \<Longrightarrow> I s \<Longrightarrow> I s'"
    and start: "\<And>s p. I s \<Longrightarrow> currentPageId s = Some p \<or> (\<exists>i. currentPageSync s = Some (i, p))
                  \<Longrightarrow> I (startPageSync E p False s)"
    and stop: "\<And>s. I s \<Longrightarrow> I (stopPageSync s)"
    and startC: "\<And>s c. I s \<Longrightarrow> I (startCollectionSync c s)"
    and stopC: "\<And>s. I s \<Longrightarrow> I (stopCollectionSync s)"
    and opn: "\<And>s i. I s \<Longrightarrow> I (sourceOpen i s)"
    and cls: "\<And>s i. I s \<Longrightarrow> I (closeSource i s)"
    and call: "\<And>p enc. ev = StartPageSync p enc \<Longrightarrow> I (startPageSync E p enc s)"
    and s: "I s"
  shows "I (step E ev s)"
proof (cases "connectionEvent ev")
  case False
  from frame [OF links_step [OF False] s] show ?thesis .
next
  case True
  have enc: "I t \<Longrightarrow> I (startPageSync E p True t)" for t p
    by (rule frame [of _ t]) (simp_all add: startPageSync_def)
  have timeout: "I t \<Longrightarrow> I (setTimeout cb d t)" for t cb d
    by (rule frame [of _ t]) simp_all
  have clear: "I t \<Longrightarrow> I (clearTimeout x t)" for t x
    by (rule frame [of _ t]) simp_all
  have debounce: "I t \<Longrightarrow> I (debounceCallback E t)" for t
    by (rule frame [of _ t]) simp_all
  have info: "I t \<Longrightarrow> I (showInfo n t)" for t n
    by (rule frame [of _ t]) simp_all
  have reconnect: "I t \<Longrightarrow> I (reconnectCallback E p e t)" for t p e
    using enc [of t p] start [of t p] by (cases e) (simp_all add: reconnectCallback_def)
  have resumeP: "I t \<Longrightarrow> I (resumePageSync E t)" for t
    using start [of t] by (simp add: resumePageSync_def split: option.splits)
  have resumeC: "I t \<Longrightarrow> I (resumeCollectionSync t)" for t
    using startC [of t] by (simp add: resumeCollectionSync_def split: option.splits)
  have reopenP: "I t \<Longrightarrow> I (reopenPageSync E t)" for t
    using start [of t] by (simp add: reopenPageSync_def split: option.splits)
  have reopenC: "I t \<Longrightarrow> I (reopenCollectionSync t)" for t
    using startC [of t] by (simp add: reopenCollectionSync_def split: option.splits)
  show ?thesis
  proof (cases ev)
    case (StartPageSync p e)
    with call show ?thesis by simp
  next
    case StopPageSync
    with stop [OF s] show ?thesis by simp
  next
    case (StartCollectionSync c)
    with startC [OF s] show ?thesis by simp
  next
    case StopCollectionSync
    with stopC [OF s] show ?thesis by simp
  next
    case (SourceOpen i)
    with opn [OF s] show ?thesis by simp
  next
    case (SourceError i)
    with s cls [OF s, of i] timeout [OF cls [OF s, of i]] show ?thesis
      by (simp add: sourceError_def onPageError_def split: option.splits stream.splits)
  next
    case (FireTimer t)
    with s reconnect [OF clear [OF s]] debounce [OF clear [OF s]] show ?thesis
      by (simp add: fireTimer_def split: option.splits prod.splits timer_callback.splits)
  next
    case Online
    with info [OF resumeC [OF resumeP [OF s]]] show ?thesis by (simp add: handleOnline_def)
  next
    case (VisibilityChange hidden)
    with s reopenC [OF reopenP [OF s]] show ?thesis by (simp add: handleVisibilityChange_def)
  qed (use True in simp_all)
qed









lemma unsynced_links: "links s' = links s \<Longrightarrow> unsynced p s \<Longrightarrow> unsynced p s'"
  by (simp add: links_def unsynced_def pageStreams_def)

lemma pageStreams_targets: "pageStreams p s = [] \<longleftrightarrow> (\<forall>t \<in> set (targets s). \<not> onPage p t)"
  by (auto simp: pageStreams_def targets_def filter_empty_conv)

lemma targets_modify:
  assumes "\<And>e. target (f e) = target e"
  shows "map target (modify i f xs) = map target xs"
proof (cases "i < length xs")
  case True
  have "map target (xs[i := f (xs ! i)]) = (map target xs)[i := target (f (xs ! i))]"
    by (rule map_update)
  also have "target (f (xs ! i)) = map target xs ! i"
    using True assms by simp
  also have "(map target xs)[i := map target xs ! i] = map target xs"
    by (rule list_update_id)
  finally show ?thesis using True by (simp add: modify_def)
next
  case False
  then show ?thesis by (simp add: modify_def)
qed

lemma targets_unchanged [simp]:
  "targets (closeSource i s) = targets s"
  "targets (sourceOpen i s) = targets s"
  "targets (stopPageSync s) = targets s"
  "targets (stopCollectionSync s) = targets s"
  by (simp_all add: targets_def closeSource_def sourceOpen_def sources_stopPageSync
        sources_stopCollectionSync targets_modify split: option.splits)

lemma targets_start:
  "targets (startPageSync E q False s) = targets s @ [PageStream q False]"
  "targets (startCollectionSync c s) = targets s @ [CollectionStream c]"
  using targets_unchanged(3,4) [of s]
  by (simp_all add: targets_def startPageSync_fields startCollectionSync_fields)

lemma unsynced_startPageSync:
  "unsynced p s \<Longrightarrow> q \<noteq> p \<Longrightarrow> unsynced p (startPageSync E q False s)"
  by (simp add: unsynced_def pageStreams_targets targets_start startPageSync_fields)

lemma unsynced_stopPageSync: "unsynced p s \<Longrightarrow> unsynced p (stopPageSync s)"
  by (simp add: unsynced_def pageStreams_targets)

lemma unsynced_collection:
  assumes "unsynced p s"
  shows "unsynced p (startCollectionSync c s)" and "unsynced p (stopCollectionSync s)"
    and "unsynced p (sourceOpen i s)" and "unsynced p (closeSource i s)"
  using assms
  by (simp_all add: unsynced_def pageStreams_targets targets_start startCollectionSync_fields)
     (simp add: sourceOpen_def)

lemma unsynced_step:
  fixes s :: "'d sync_state"
  assumes "unsynced p s" and "ev \<noteq> StartPageSync p False"
  shows "unsynced p (step E ev s)"
proof (rule step_preserves [where I = "unsynced p"])
  show "unsynced p s" by fact
next
  fix q enc assume ev: "ev = StartPageSync q enc"
  show "unsynced p (startPageSync E q enc s)"
  proof (cases enc)
    case True
    have "links (startPageSync E q True s) = links s" by (simp add: startPageSync_def showInfo_def)
    from unsynced_links [OF this assms(1)] True show ?thesis by simp
  next
    case False
    with ev assms(2) have "q \<noteq> p" by simp
    with False assms(1) show ?thesis by (simp add: unsynced_startPageSync)
  qed
next
  fix t :: "'d sync_state" and q
  assume "unsynced p t" and "currentPageId t = Some q \<or> (\<exists>i. currentPageSync t = Some (i, q))"
  then have "q \<noteq> p" by (auto simp: unsynced_def)
  with \<open>unsynced p t\<close> show "unsynced p (startPageSync E q False t)"
    by (simp add: unsynced_startPageSync)
qed (simp_all add: unsynced_links unsynced_stopPageSync unsynced_collection)

lemma unsynced_run:
  assumes "unsynced p s" and "StartPageSync p False \<notin> set evs"
  shows "unsynced p (run E evs s)"
  using assms unfolding run_def
  by (induction evs arbitrary: s) (auto simp: unsynced_step)

lemma unsynced_initial:
  "appCurrentPageId app \<noteq> Some p \<Longrightarrow> unsynced p (initSyncManager app (moduleLoad items cv))"
  by (simp add: unsynced_def pageStreams_def initSyncManager_def moduleLoad_def)


lemma activeCollectionSyncs_stop:
  assumes "single s"
  shows "activeCollectionSyncs (stopCollectionSync s) = []"
  using stopCollectionSync_no_live [OF assms]
  by (simp add: activeCollectionSyncs_def filter_empty_conv)

lemma activePageSyncs_start:
  assumes "single s"
  shows "activePageSyncs (startPageSync E p False s) = [length (sources s)]"
proof -
  let ?r = "startPageSync E p False s" and ?n = "length (sources s)"
  have len: "length (sources ?r) = Suc ?n"
    by (simp add: startPageSync_fields)
  have old: "\<not> livePage (sources ?r ! i)" if "i < ?n" for i
    using stopPageSync_no_live [OF assms that] that by (simp add: startPageSync_fields nth_append)
  have new: "livePage (sources ?r ! ?n)"
    by (simp add: startPageSync_fields nth_append livePage_def)
  have "filter (\<lambda>i. livePage (sources ?r ! i)) [0..<?n] = []"
    using old by (simp add: filter_empty_conv)
  with new show ?thesis by (simp add: activePageSyncs_def len)
qed

lemma activeCollectionSyncs_start:
  assumes "single s"
  shows "activeCollectionSyncs (startCollectionSync c s) = [length (sources s)]"
proof -
  let ?r = "startCollectionSync c s" and ?n = "length (sources s)"
  have len: "length (sources ?r) = Suc ?n"
    by (simp add: startCollectionSync_fields)
  have old: "\<not> liveCollection (sources ?r ! i)" if "i < ?n" for i
    using stopCollectionSync_no_live [OF assms that] that
    by (simp add: startCollectionSync_fields nth_append)
  have new: "liveCollection (sources ?r ! ?n)"
    by (simp add: startCollectionSync_fields nth_append liveCollection_def)
  have "filter (\<lambda>i. liveCollection (sources ?r ! i)) [0..<?n] = []"
    using old by (simp add: filter_empty_conv)
  with new show ?thesis by (simp add: activeCollectionSyncs_def len)
qed

lemma single_reachable: "single (run E evs (initSyncManager app (moduleLoad items cv)))"
  by (rule single_run) (rule single_initial)



lemma lookupAt_modify:
  "lookupAt (modify i f xs) j = (if j = i then map_option f (lookupAt xs j) else lookupAt xs j)"
  by (simp add: modify_def lookupAt_def)

lemma modify_modify: "modify i f (modify i g xs) = modify i (\<lambda>x. f (g x)) xs"
  by (simp add: modify_def)

lemma bindings_setContent [simp]: "bindings (setContent c s) = bindings s"
  by (simp add: setContent_def)

lemma onEditorBlur_fired:
  assumes "lookupAt (bindings s) b = Some x" and "remoteUpdatePending x = Some c" and "truthy c"
  shows "onEditorBlur b s =
           s\<lparr>editor := map_option (\<lambda>ed. ed\<lparr>html := c\<rparr>) (editor s),
             bindings := modify b (\<lambda>x. x\<lparr>remoteUpdatePending := None, isUpdating := False\<rparr>) (bindings s)\<rparr>"
  using assms by (simp add: onEditorBlur_def Let_def setContent_def modify_modify)

lemma onEditorBlur_idle: "idle b s \<Longrightarrow> onEditorBlur b s = s"
  by (simp add: idle_def onEditorBlur_def split: option.splits)

lemma idle_after: "idle b (onEditorBlur b s)"
proof (cases "idle b s")
  case True
  then show ?thesis by (simp add: onEditorBlur_idle)
next
  case False
  then obtain x c where "lookupAt (bindings s) b = Some x" "remoteUpdatePending x = Some c" "truthy c"
    by (auto simp: idle_def split: option.splits)
  then show ?thesis
    by (simp add: onEditorBlur_fired idle_def lookupAt_modify)
qed

lemma lookupAt_onEditorBlur:
  "b' \<noteq> b \<Longrightarrow> lookupAt (bindings (onEditorBlur b' s)) b = lookupAt (bindings s) b"
  by (simp add: onEditorBlur_def Let_def lookupAt_modify split: option.splits)

lemma idle_preserved: "idle b s \<Longrightarrow> idle b (onEditorBlur b' s)"
  by (cases "b' = b") (simp_all add: idle_after, simp add: idle_def lookupAt_onEditorBlur)

lemma editor_onEditorBlur:
  "editor (onEditorBlur b s) = editor s \<or>
   (\<exists>c. editor (onEditorBlur b s) = map_option (\<lambda>ed. ed\<lparr>html := c\<rparr>) (editor s))"
  by (auto simp add: onEditorBlur_def Let_def setContent_def split: option.splits)

lemma blurView_Some:
  "blurView s = Some (f, hs) \<Longrightarrow> \<exists>ed. editor s = Some ed \<and> hasFocus ed = f \<and> blurHandlers ed = hs"
  by (auto simp: blurView_def)

lemma blurView_onEditorBlur [simp]: "blurView (onEditorBlur b s) = blurView s"
  using editor_onEditorBlur [of b s]
  by (cases "editor s") (auto simp: blurView_def)

lemma blurView_fold [simp]: "blurView (foldl (\<lambda>s' b. onEditorBlur b s') s hs) = blurView s"
  by (induction hs arbitrary: s) simp_all

lemma idle_fold:
  "b \<in> set hs \<or> idle b s \<Longrightarrow> idle b (foldl (\<lambda>s' b. onEditorBlur b s') s hs)"
proof (induction hs arbitrary: s)
  case Nil
  then show ?case by simp
next
  case (Cons h hs)
  show ?case
  proof (cases "h = b \<or> idle b s")
    case True
    then have "idle b (onEditorBlur h s)" by (auto simp: idle_after idle_preserved)
    with Cons.IH [of "onEditorBlur h s"] show ?thesis by simp
  next
    case False
    with Cons.prems have "b \<in> set hs" by auto
    with Cons.IH [of "onEditorBlur h s"] show ?thesis by simp
  qed
qed

lemma fold_idle:
  "(\<And>b. b \<in> set hs \<Longrightarrow> idle b s) \<Longrightarrow> foldl (\<lambda>s' b. onEditorBlur b s') s hs = s"
  by (induction hs) (simp_all add: onEditorBlur_idle)

lemma editorBlur_idempotent: "editorBlur (editorBlur s) = editorBlur s"
proof (cases "editor s")
  case None
  then show ?thesis by (simp add: editorBlur_def)
next
  case (Some ed)
  let ?s0 = "s\<lparr>editor := Some (ed\<lparr>hasFocus := False\<rparr>)\<rparr>"
  let ?t = "foldl (\<lambda>s' b. onEditorBlur b s') ?s0 (blurHandlers ed)"
  have t: "editorBlur s = ?t" using Some by (simp add: editorBlur_def)
  have "blurView ?t = blurView ?s0"
    by (rule blurView_fold)
  then have "blurView ?t = Some (False, blurHandlers ed)"
    by (simp add: blurView_def)
  from blurView_Some [OF this]
  obtain ed' where ed': "editor ?t = Some ed'" "hasFocus ed' = False" "blurHandlers ed' = blurHandlers ed"
    by blast
  have same: "?t\<lparr>editor := Some (ed'\<lparr>hasFocus := False\<rparr>)\<rparr> = ?t"
    using ed' by simp
  have idle: "idle b ?t" if "b \<in> set (blurHandlers ed)" for b
    using idle_fold [of b "blurHandlers ed" ?s0] that by simp
  have "editorBlur ?t =
          foldl (\<lambda>s' b. onEditorBlur b s') (?t\<lparr>editor := Some (ed'\<lparr>hasFocus := False\<rparr>)\<rparr>) (blurHandlers ed')"
    by (simp only: editorBlur_def ed'(1) option.case)
  also have "\<dots> = foldl (\<lambda>s' b. onEditorBlur b s') ?t (blurHandlers ed)"
    by (simp only: same ed'(3))
  also have "\<dots> = ?t" using idle by (rule fold_idle)
  finally show ?thesis by (simp add: t)
qed

lemma setPending_twice: "setPending b c2 (setPending b c1 s) = setPending b c2 s"
  by (simp add: setPending_def modify_modify)

lemma fireObservers_remote [simp]: "fireObservers (Some ''remote'') em s = s"
proof -
  have "foldl (\<lambda>s' p. ydocUpdateHandler p u (Some ''remote'') s') s ps = s" for u ps
    by (induction ps) (simp_all add: ydocUpdateHandler_def)
  then show ?thesis by (simp add: fireObservers_def split: option.splits)
qed

lemma ydoc_applyRemoteContent [simp]: "ydoc (applyRemoteContent c s) = ydoc s"
  by (simp add: applyRemoteContent_def setPending_def setContent_def split: option.splits)

lemma ydoc_onYjsUpdate:
  "ydoc (onYjsUpdate E (Some u) s) = map_option (\<lambda>y. y\<lparr>doc := merged E (doc y) u\<rparr>) (ydoc s)"
  by (simp add: onYjsUpdate_def merged_def Let_def split: option.splits)

lemma ydoc_onEditorUpdate [simp]: "ydoc (onEditorUpdate b s) = ydoc s"
  by (simp add: onEditorUpdate_def Let_def setTimeout_def clearTimeout_def split: option.splits)

lemma ydoc_onEditorBlur [simp]: "ydoc (onEditorBlur b s) = ydoc s"
  by (simp add: onEditorBlur_def Let_def setContent_def split: option.splits)

lemma ydoc_editorEdit [simp]: "ydoc (editorEdit h s) = ydoc s"
proof -
  have "ydoc (foldl (\<lambda>s' b. onEditorUpdate b s') t bs) = ydoc t" for t :: "'a sync_state" and bs
    by (induction bs arbitrary: t) simp_all
  then show ?thesis by (simp add: editorEdit_def split: option.splits)
qed

lemma ydoc_editorBlur [simp]: "ydoc (editorBlur s) = ydoc s"
proof -
  have "ydoc (foldl (\<lambda>s' b. onEditorBlur b s') t bs) = ydoc t" for t :: "'a sync_state" and bs
    by (induction bs arbitrary: t) simp_all
  then show ?thesis by (simp add: editorBlur_def split: option.splits)
qed

lemma ydoc_editorFocus [simp]: "ydoc (editorFocus s) = ydoc s"
  by (simp add: editorFocus_def)

lemma openStream_links: "links s' = links s \<Longrightarrow> openStream s' i = openStream s i"
  by (simp add: links_def openStream_def)

lemma gate_not_connection: "gateEvent i ev \<Longrightarrow> \<not> connectionEvent ev"
  by (cases ev) simp_all

lemma doc_identity: "map_option (\<lambda>y. y) yo = yo"
  by (cases yo) simp_all

lemma ydoc_gate_step:
  assumes "openStream s i = Some (PageStream p enc)" and "gateEvent i ev"
  shows "ydoc (step E ev s) =
           map_option (\<lambda>y. y\<lparr>doc := foldl (merged E) (doc y) (remoteUpdates [ev])\<rparr>) (ydoc s)"
proof (cases ev)
  case (YjsUpdate j payload)
  with assms have j: "j = i" by simp
  show ?thesis
  proof (cases payload)
    case None
    with YjsUpdate j assms show ?thesis
      by (simp add: onPageStream_def onYjsUpdate_def doc_identity)
  next
    case (Some u)
    with YjsUpdate j assms show ?thesis
      by (simp add: onPageStream_def ydoc_onYjsUpdate)
  qed
qed (use assms in \<open>simp_all add: doc_identity\<close>)

lemma remoteUpdates_Cons: "remoteUpdates (ev # evs) = remoteUpdates [ev] @ remoteUpdates evs"
  by (cases "(ev # evs)" rule: remoteUpdates.cases) simp_all

lemma map_modify_same:
  assumes "\<And>x. g (f x) = g x"
  shows "map g (modify i f xs) = map g xs"
proof (cases "i < length xs")
  case True
  have "map g (xs[i := f (xs ! i)]) = (map g xs)[i := g (f (xs ! i))]"
    by (rule map_update)
  also have "g (f (xs ! i)) = map g xs ! i"
    using True assms by simp
  also have "(map g xs)[i := map g xs ! i] = map g xs"
    by (rule list_update_id)
  finally show ?thesis using True by (simp add: modify_def)
next
  case False
  then show ?thesis by (simp add: modify_def)
qed

lemma pview_update [simp]:
  "pview (s\<lparr>ydoc := a\<rparr>) = pview s"
  "pview (s\<lparr>yXmlFragment := b\<rparr>) = pview s"
  "pview (s\<lparr>yMetadata := b\<rparr>) = pview s"
  "pview (s\<lparr>timers := e\<rparr>) = pview s"
  "pview (s\<lparr>nextTimer := f\<rparr>) = pview s"
  "pview (s\<lparr>clock := f\<rparr>) = pview s"
  "pview (s\<lparr>sent := g\<rparr>) = pview s"
  "pview (s\<lparr>sources := h\<rparr>) = pview s"
  "pview (s\<lparr>currentPageSync := i\<rparr>) = pview s"
  "pview (s\<lparr>currentPageId := j\<rparr>) = pview s"
  "pview (s\<lparr>notices := k\<rparr>) = pview s"
  by (simp_all add: pview_def)

lemma pview_fireObservers [simp]: "pview (fireObservers origin em s) = pview s"
proof -
  have "pview (foldl (\<lambda>s' p. ydocUpdateHandler p u origin s') s ps) = pview s" for u ps
    by (induction ps arbitrary: s) (simp_all add: ydocUpdateHandler_def sendYjsUpdate_def)
  then show ?thesis by (simp add: fireObservers_def split: option.splits)
qed

lemma pview_metadataSet [simp]: "pview (metadataSet E c s) = pview s"
  by (simp add: metadataSet_def split: option.splits prod.splits)

lemma pview_debounceCallback [simp]: "pview (debounceCallback E s) = pview s"
  by (simp add: debounceCallback_def split: option.splits)

lemma pview_startPageSync [simp]: "pview (startPageSync E p enc s) = pview s"
  by (simp add: startPageSync_def stopPageSync_def Let_def showInfo_def closeSource_def
      newEventSource_def split: option.splits)

lemma pview_reconnectCallback [simp]: "pview (reconnectCallback E p enc s) = pview s"
  by (simp add: reconnectCallback_def)

lemma pview_clearTimeout [simp]: "pview (clearTimeout t s) = pview s"
  by (simp add: clearTimeout_def)

lemma pview_fireTimer [simp]: "pview (fireTimer E t s) = pview s"
  by (simp add: fireTimer_def split: option.splits prod.splits timer_callback.splits)

lemma pview_onEditorUpdate [simp]: "pview (onEditorUpdate b s) = pview s"
  by (simp add: onEditorUpdate_def Let_def setTimeout_def clearTimeout_def split: option.splits)
     (simp add: pview_def map_modify_same)

lemma pview_editorEdit [simp]: "pview (editorEdit h s) = pview s"
proof -
  have "pview (foldl (\<lambda>s' b. onEditorUpdate b s') t bs) = pview t" for t :: "'a sync_state" and bs
    by (induction bs arbitrary: t) simp_all
  then show ?thesis by (simp add: editorEdit_def split: option.splits) (simp add: pview_def)
qed

lemma pview_editorFocus [simp]: "pview (editorFocus s) = pview s"
  by (cases "editor s") (simp_all add: editorFocus_def pview_def)

lemma pview_step: "quietEvent ev \<Longrightarrow> pview (step E ev s) = pview s"
  by (cases ev) simp_all

lemma pview_run: "\<forall>ev \<in> set evs. quietEvent ev \<Longrightarrow> pview (run E evs s) = pview s"
  unfolding run_def by (induction evs arbitrary: s) (simp_all add: pview_step)

lemma pview_facts:
  assumes "pview s' = pview s" and "editor s = Some ed" and "lookupAt (bindings s) b = Some x"
  shows "\<exists>ed' x'. editor s' = Some ed' \<and> blurHandlers ed' = blurHandlers ed \<and>
           lookupAt (bindings s') b = Some x' \<and> remoteUpdatePending x' = remoteUpdatePending x"
proof -
  from assms(1) have m: "map remoteUpdatePending (bindings s') = map remoteUpdatePending (bindings s)"
    and e: "map_option blurHandlers (editor s') = map_option blurHandlers (editor s)"
    by (simp_all add: pview_def)
  from m have len: "length (bindings s') = length (bindings s)"
    by (rule map_eq_imp_length_eq)
  from assms(3) have b: "b < length (bindings s)" and x: "x = bindings s ! b"
    by (auto simp: lookupAt_def split: if_splits)
  have "remoteUpdatePending (bindings s' ! b) = map remoteUpdatePending (bindings s') ! b"
    using b len by simp
  also have "\<dots> = remoteUpdatePending (bindings s ! b)"
    using b by (simp add: m)
  finally have p: "remoteUpdatePending (bindings s' ! b) = remoteUpdatePending x"
    by (simp add: x)
  from e assms(2) obtain ed' where "editor s' = Some ed'" "blurHandlers ed' = blurHandlers ed"
    by auto
  with p b len show ?thesis by (simp add: lookupAt_def)
qed

lemma lookupAt_fold_blur:
  "b \<notin> set hs \<Longrightarrow>
   lookupAt (bindings (foldl (\<lambda>s' b. onEditorBlur b s') s hs)) b = lookupAt (bindings s) b"
  by (induction hs arbitrary: s) (simp_all add: lookupAt_onEditorBlur)

lemma blur_applies:
  assumes ed: "editor s = Some ed" and last: "blurHandlers ed = hs @ [b]" "b \<notin> set hs"
    and x: "lookupAt (bindings s) b = Some x" "remoteUpdatePending x = Some c" "truthy c"
  shows "map_option html (editor (editorBlur s)) = Some c"
    and "map_option remoteUpdatePending (lookupAt (bindings (editorBlur s)) b) = Some None"
proof -
  let ?s0 = "s\<lparr>editor := Some (ed\<lparr>hasFocus := False\<rparr>)\<rparr>"
  let ?t = "foldl (\<lambda>s' b. onEditorBlur b s') ?s0 hs"
  have eb: "editorBlur s = onEditorBlur b ?t"
    using ed last by (simp add: editorBlur_def)
  have "blurView ?t = blurView ?s0" by (rule blurView_fold)
  then have "blurView ?t = Some (False, hs @ [b])"
    using last by (simp add: blurView_def)
  from blurView_Some [OF this] obtain ed' where ed': "editor ?t = Some ed'" by blast
  have lk: "lookupAt (bindings ?t) b = Some x"
    using lookupAt_fold_blur [OF last(2), of ?s0] x(1) by simp
  have fired: "onEditorBlur b ?t =
      ?t\<lparr>editor := map_option (\<lambda>ed. ed\<lparr>html := c\<rparr>) (editor ?t),
         bindings := modify b (\<lambda>x. x\<lparr>remoteUpdatePending := None, isUpdating := False\<rparr>) (bindings ?t)\<rparr>"
    by (rule onEditorBlur_fired [OF lk x(2,3)])
  show "map_option html (editor (editorBlur s)) = Some c"
    by (simp only: eb fired) (simp add: ed')
  show "map_option remoteUpdatePending (lookupAt (bindings (editorBlur s)) b) = Some None"
    by (simp only: eb fired) (simp add: lookupAt_modify lk)
qed

lemma focused_update:
  assumes ed: "editor s = Some ed" and focus: "hasFocus ed"
  shows "editor (onYjsUpdate E payload s) = Some ed"
  using assms
  by (simp add: onYjsUpdate_def Let_def applyRemoteContent_def setPending_def
      split: option.splits prod.splits)

lemma focused_update_stored:
  assumes ed: "editor s = Some ed" and focus: "hasFocus ed"
    and hook: "setPendingRemoteUpdate ed = Some b" and bind: "lookupAt (bindings s) b = Some x"
    and doc: "ydoc s = Some y" "yMetadata s" "applyUpdate E (doc y) u = Some (d', em)"
    and content: "metaGet E d' = Some c" "truthy c" "c \<noteq> html ed"
  shows "lookupAt (bindings (onYjsUpdate E (Some u) s)) b = Some (x\<lparr>remoteUpdatePending := Some c\<rparr>)"
    and "ydoc (onYjsUpdate E (Some u) s) = Some (y\<lparr>doc := d'\<rparr>)"
  using assms
  by (simp_all add: onYjsUpdate_def Let_def applyRemoteContent_def setPending_def lookupAt_modify)

lemma sent_applyRemoteContent [simp]: "sent (applyRemoteContent c s) = sent s"
  by (simp add: applyRemoteContent_def setPending_def setContent_def split: option.splits)

lemma sent_onYjsUpdate: "sent (onYjsUpdate E payload s) = sent s"
  by (simp add: onYjsUpdate_def Let_def split: option.splits prod.splits)

lemma gateState_fields:
  "editor gateState = Some gateEditor"
  "lookupAt (bindings gateState) 0 = Some freshBinding"
  "ydoc gateState = Some \<lparr>doc = Some ''<p>x</p>'', observers = [''p1'']\<rparr>"
  "yMetadata gateState"
  "openStream gateState 0 = Some (PageStream ''p1'' False)"
  by code_simp+

lemma updateFirst_length [simp]: "length (updateFirst P f xs) = length xs"
  by (induction xs) simp_all

lemma updateFirst_nth:
  "j < length xs \<Longrightarrow>
   updateFirst P f xs ! j = (if P (xs ! j) \<and> (\<forall>k<j. \<not> P (xs ! k)) then f (xs ! j) else xs ! j)"
proof (induction xs arbitrary: j)
  case Nil
  then show ?case by simp
next
  case (Cons x xs)
  show ?case
  proof (cases j)
    case 0
    then show ?thesis by simp
  next
    case (Suc m)
    with Cons.prems have m: "m < length xs" by simp
    have "(\<forall>k<Suc m. \<not> P ((x # xs) ! k)) \<longleftrightarrow> (\<not> P x \<and> (\<forall>k<m. \<not> P (xs ! k)))"
      by (auto simp: less_Suc_eq_0_disj)
    with Suc Cons.IH [OF m] show ?thesis by auto
  qed
qed

lemma dataPageId_updateItem [simp]: "dataPageId (updateItem field v item) = dataPageId item"
  by (simp add: updateItem_def split: option.splits)

lemma onMetadataChange_frame:
  "(onMetadataChange payload s)\<lparr>sidebar := sidebar s, cover := cover s\<rparr> = s"
  by (simp add: onMetadataChange_def updatePageInSidebar_def Let_def split: option.splits)

lemma sidebar_onMetadataChange:
  "sidebar (onMetadataChange (Some ev) s) =
     updateFirst (\<lambda>item. dataPageId item = evPageId ev) (updateItem (evField ev) (evValue ev)) (sidebar s)"
  by (simp add: onMetadataChange_def updatePageInSidebar_def Let_def)

lemma cover_onMetadataChange:
  "Some (evPageId ev) \<noteq> currentPageId s \<Longrightarrow> cover (onMetadataChange (Some ev) s) = cover s"
  by (simp add: onMetadataChange_def updatePageInSidebar_def Let_def)

lemma editor_onMetadataChange: "editor (onMetadataChange payload s) = editor s"
  by (simp add: onMetadataChange_def updatePageInSidebar_def Let_def split: option.splits)

lemma find_append_fresh:
  "\<forall>x \<in> set xs. fst x \<noteq> t \<Longrightarrow> find (\<lambda>x. fst x = t) (xs @ [(t, d, cb)]) = Some (t, d, cb)"
  by (induction xs) simp_all

lemma filter_append_fresh:
  "\<forall>x \<in> set xs. fst x \<noteq> t \<Longrightarrow> filter (\<lambda>x. fst x \<noteq> t) (xs @ [(t, d, cb)]) = xs"
  by (induction xs) simp_all

lemma sourceError_page:
  assumes "lookupAt (sources s) i = Some e" "target e = PageStream p enc" "readyState e \<noteq> CLOSED"
  shows "sourceError i s =
           s\<lparr>sources := modify i (\<lambda>e. e\<lparr>readyState := CLOSED\<rparr>) (sources s),
             timers := timers s @ [(nextTimer s, clock s + 3000, Reconnect p enc)],
             nextTimer := Suc (nextTimer s)\<rparr>"
  using assms by (simp add: sourceError_def onPageError_def setTimeout_def closeSource_def)

lemma fireTimer_reconnect:
  assumes "find (\<lambda>x. fst x = t) (timers s) = Some (t, due, Reconnect p enc)"
  shows "fireTimer E t s =
           (if clock s < due then s
            else if currentPageId s = Some p then startPageSync E p enc (clearTimeout t s)
            else clearTimeout t s)"
  using assms by (simp add: fireTimer_def reconnectCallback_def clearTimeout_def)

lemma onEditorUpdate_skip:
  assumes "case lookupAt (bindings s) h of None \<Rightarrow> True | Some x \<Rightarrow> isUpdating x"
  shows "onEditorUpdate h s = s"
  using assms by (cases "lookupAt (bindings s) h") (simp_all add: onEditorUpdate_def)

lemma onEditorUpdate_active:
  assumes "lookupAt (bindings s) h = Some x" and "\<not> isUpdating x"
  shows "onEditorUpdate h s =
           s\<lparr>timers := (case updateTimeout x of Some t0 \<Rightarrow> filter (\<lambda>y. fst y \<noteq> t0) (timers s)
                         | None \<Rightarrow> timers s) @ [(nextTimer s, clock s + 200, Debounce h)],
             nextTimer := Suc (nextTimer s),
             bindings := modify h (\<lambda>x. x\<lparr>updateTimeout := Some (nextTimer s)\<rparr>) (bindings s)\<rparr>"
  using assms
  by (simp add: onEditorUpdate_def Let_def setTimeout_def clearTimeout_def split: option.splits)

lemma onEditorUpdate_cases:
  obtains "onEditorUpdate h s = s"
      and "case lookupAt (bindings s) h of None \<Rightarrow> True | Some x \<Rightarrow> isUpdating x"
  | y where "lookupAt (bindings s) h = Some y" and "\<not> isUpdating y"
      and "timers (onEditorUpdate h s) =
             (case updateTimeout y of Some t0 \<Rightarrow> filter (\<lambda>z. fst z \<noteq> t0) (timers s)
              | None \<Rightarrow> timers s) @ [(nextTimer s, clock s + 200, Debounce h)]"
      and "nextTimer (onEditorUpdate h s) = Suc (nextTimer s)"
      and "bindings (onEditorUpdate h s) =
             modify h (\<lambda>x. x\<lparr>updateTimeout := Some (nextTimer s)\<rparr>) (bindings s)"
proof (cases "case lookupAt (bindings s) h of None \<Rightarrow> True | Some x \<Rightarrow> isUpdating x")
  case True
  with onEditorUpdate_skip [OF True] that(1) show ?thesis by blast
next
  case False
  then obtain y where y: "lookupAt (bindings s) h = Some y" "\<not> isUpdating y"
    by (auto split: option.splits)
  show ?thesis
    by (rule that(2) [OF y]) (simp_all add: onEditorUpdate_active [OF y])
qed

lemma frame_onEditorUpdate [simp]:
  "clock (onEditorUpdate h s) = clock s"
  "sent (onEditorUpdate h s) = sent s"
  "editor (onEditorUpdate h s) = editor s"
  "ydoc (onEditorUpdate h s) = ydoc s"
  "yMetadata (onEditorUpdate h s) = yMetadata s"
  "length (bindings (onEditorUpdate h s)) = length (bindings s)"
  by (simp_all add: onEditorUpdate_def Let_def setTimeout_def clearTimeout_def split: option.splits)

lemma frame_fold_update [simp]:
  "clock (foldl (\<lambda>s' b. onEditorUpdate b s') s hs) = clock s"
  "sent (foldl (\<lambda>s' b. onEditorUpdate b s') s hs) = sent s"
  "editor (foldl (\<lambda>s' b. onEditorUpdate b s') s hs) = editor s"
  "ydoc (foldl (\<lambda>s' b. onEditorUpdate b s') s hs) = ydoc s"
  "yMetadata (foldl (\<lambda>s' b. onEditorUpdate b s') s hs) = yMetadata s"
  by (induction hs arbitrary: s) simp_all

lemma frame_editorEdit [simp]:
  "sent (editorEdit h s) = sent s"
  "clock (editorEdit h s) = clock s"
  "ydoc (editorEdit h s) = ydoc s"
  "yMetadata (editorEdit h s) = yMetadata s"
  "editor (editorEdit h s) = map_option (\<lambda>ed. ed\<lparr>html := h\<rparr>) (editor s)"
  by (simp_all add: editorEdit_def split: option.splits)

lemma rescheduling_step:
  assumes r: "rescheduling c hs (h # rest) s" and h: "h \<in> set hs" and c: "clock s = c"
  shows "rescheduling c hs rest (onEditorUpdate h s)"
proof (cases "case lookupAt (bindings s) h of None \<Rightarrow> True | Some x \<Rightarrow> isUpdating x")
  case True
  have "timerTracked hs s x \<and> (fst (snd x) = c + 200 \<or> (\<exists>b \<in> set rest. snd (snd x) = Debounce b))"
    if x: "x \<in> set (timers s)" for x
  proof -
    from r x have t: "timerTracked hs s x"
      and d: "fst (snd x) = c + 200 \<or> (\<exists>b \<in> set (h # rest). snd (snd x) = Debounce b)"
      by (auto simp: rescheduling_def)
    from t True have "snd (snd x) \<noteq> Debounce h"
      by (auto simp: timerTracked_def split: option.splits)
    with t d show ?thesis by auto
  qed
  then show ?thesis by (simp add: onEditorUpdate_skip [OF True] rescheduling_def)
next
  case False
  then obtain y where y: "lookupAt (bindings s) h = Some y" "\<not> isUpdating y"
    by (auto split: option.splits)
  let ?old = "case updateTimeout y of Some t0 \<Rightarrow> filter (\<lambda>z. fst z \<noteq> t0) (timers s) | None \<Rightarrow> timers s"
  let ?s' = "onEditorUpdate h s"
  have s': "?s' = s\<lparr>timers := ?old @ [(nextTimer s, clock s + 200, Debounce h)],
             nextTimer := Suc (nextTimer s),
             bindings := modify h (\<lambda>x. x\<lparr>updateTimeout := Some (nextTimer s)\<rparr>) (bindings s)\<rparr>"
    by (rule onEditorUpdate_active [OF y])
  have new: "timerTracked hs ?s' (nextTimer s, clock s + 200, Debounce h)"
    using h y by (simp add: s' timerTracked_def lookupAt_modify)
  have old: "timerTracked hs ?s' x \<and> (fst (snd x) = c + 200 \<or> (\<exists>b \<in> set rest. snd (snd x) = Debounce b))"
    if x: "x \<in> set ?old" for x
  proof -
    from x have xs: "x \<in> set (timers s)" by (auto split: option.splits)
    with r have t: "timerTracked hs s x"
      and d: "fst (snd x) = c + 200 \<or> (\<exists>b \<in> set (h # rest). snd (snd x) = Debounce b)"
      by (auto simp: rescheduling_def)
    have nh: "snd (snd x) \<noteq> Debounce h"
    proof
      assume "snd (snd x) = Debounce h"
      with t y have "updateTimeout y = Some (fst x)" by (simp add: timerTracked_def)
      with x show False by simp
    qed
    from t nh have "timerTracked hs ?s' x"
      by (auto simp: s' timerTracked_def lookupAt_modify split: timer_callback.splits option.splits)
    with d nh show ?thesis by auto
  qed
  show ?thesis
    unfolding rescheduling_def
  proof
    fix x assume "x \<in> set (timers ?s')"
    then have "x \<in> set ?old \<or> x = (nextTimer s, clock s + 200, Debounce h)"
      by (auto simp: s')
    then show "timerTracked hs ?s' x \<and> (fst (snd x) = c + 200 \<or> (\<exists>b \<in> set rest. snd (snd x) = Debounce b))"
    proof
      assume "x \<in> set ?old"
      from old [OF this] show ?thesis .
    next
      assume "x = (nextTimer s, clock s + 200, Debounce h)"
      with new c show ?thesis by simp
    qed
  qed
qed

lemma rescheduling_fold:
  assumes "rescheduling c hs rest s" and "set rest \<subseteq> set hs" and "clock s = c"
  shows "rescheduling c hs [] (foldl (\<lambda>s' b. onEditorUpdate b s') s rest)"
  using assms
proof (induction rest arbitrary: s)
  case Nil
  then show ?case by simp
next
  case (Cons h rest)
  from Cons.prems have "rescheduling c hs rest (onEditorUpdate h s)"
    by (intro rescheduling_step) simp_all
  with Cons.prems Cons.IH [of "onEditorUpdate h s"] show ?case by simp
qed

lemma edit_schedules:
  assumes "tracked s"
  shows "tracked (editorEdit h s)" and "\<forall>x \<in> set (timers (editorEdit h s)). fst (snd x) = clock s + 200"
proof -
  from assms obtain ed where ed: "editor s = Some ed"
    and tr: "list_all (timerTracked (updateHandlers ed) s) (timers s)"
    by (auto simp: tracked_def handlersOf_def)
  let ?s0 = "s\<lparr>editor := Some (ed\<lparr>html := h\<rparr>)\<rparr>"
  let ?s' = "foldl (\<lambda>s' b. onEditorUpdate b s') ?s0 (updateHandlers ed)"
  have e: "editorEdit h s = ?s'" using ed by (simp add: editorEdit_def)
  have "rescheduling (clock s) (updateHandlers ed) (updateHandlers ed) ?s0"
    using tr
    by (auto simp: rescheduling_def list_all_iff timerTracked_def split: timer_callback.splits)
  then have r: "rescheduling (clock s) (updateHandlers ed) [] ?s'"
    by (rule rescheduling_fold) simp_all
  have ed': "editor ?s' = Some (ed\<lparr>html := h\<rparr>)" by simp
  from r show "tracked (editorEdit h s)"
    by (simp add: e tracked_def handlersOf_def ed' rescheduling_def list_all_iff)
  from r show "\<forall>x \<in> set (timers (editorEdit h s)). fst (snd x) = clock s + 200"
    by (simp add: e rescheduling_def)
qed

lemma uniqueIds_alt:
  "uniqueIds s =
     (\<forall>i < length (bindings s). \<forall>t. updateTimeout (bindings s ! i) = Some t \<longrightarrow>
        t < nextTimer s \<and>
        (\<forall>j < length (bindings s). updateTimeout (bindings s ! j) = Some t \<longrightarrow> j = i))"
proof -
  have "(case o' of None \<Rightarrow> True | Some t \<Rightarrow> P t) = (\<forall>t. o' = Some t \<longrightarrow> P t)"
    for o' :: "nat option" and P
    by (cases o') simp_all
  then show ?thesis
    unfolding uniqueIds_def list_all_iff by (simp add: Ball_def)
qed

lemma uniqueIds_less:
  "uniqueIds s \<Longrightarrow> k < length (bindings s) \<Longrightarrow> updateTimeout (bindings s ! k) = Some u \<Longrightarrow>
   u < nextTimer s"
  unfolding uniqueIds_alt by meson

lemma uniqueIds_inj:
  "uniqueIds s \<Longrightarrow> k < length (bindings s) \<Longrightarrow> updateTimeout (bindings s ! k) = Some u \<Longrightarrow>
   l < length (bindings s) \<Longrightarrow> updateTimeout (bindings s ! l) = Some u \<Longrightarrow> l = k"
  unfolding uniqueIds_alt by meson

lemma uniqueIdsI:
  assumes "\<And>i t. i < length (bindings s) \<Longrightarrow> updateTimeout (bindings s ! i) = Some t \<Longrightarrow> t < nextTimer s"
    and "\<And>i j t. i < length (bindings s) \<Longrightarrow> updateTimeout (bindings s ! i) = Some t \<Longrightarrow>
           j < length (bindings s) \<Longrightarrow> updateTimeout (bindings s ! j) = Some t \<Longrightarrow> j = i"
  shows "uniqueIds s"
  unfolding uniqueIds_alt using assms by meson

lemma uniqueIds_onEditorUpdate:
  assumes u: "uniqueIds s"
  shows "uniqueIds (onEditorUpdate h s)"
proof (rule onEditorUpdate_cases [of h s])
  assume "onEditorUpdate h s = s"
  with u show ?thesis by (simp only:)
next
  fix y
  assume nt: "nextTimer (onEditorUpdate h s) = Suc (nextTimer s)"
    and bs: "bindings (onEditorUpdate h s) =
             modify h (\<lambda>x. x\<lparr>updateTimeout := Some (nextTimer s)\<rparr>) (bindings s)"
  let ?s' = "onEditorUpdate h s"
  have len: "length (bindings ?s') = length (bindings s)" by simp
  have nth: "updateTimeout (bindings ?s' ! k) =
               (if k = h then Some (nextTimer s) else updateTimeout (bindings s ! k))"
    if "k < length (bindings s)" for k
    using that by (simp add: bs modify_nth)
  show ?thesis
  proof (rule uniqueIdsI)
    fix i t assume i: "i < length (bindings ?s')" and t: "updateTimeout (bindings ?s' ! i) = Some t"
    from i have i': "i < length (bindings s)" by (simp only: len)
    show "t < nextTimer ?s'"
    proof (cases "i = h")
      case True
      with t nth [OF i'] show ?thesis by (simp add: nt)
    next
      case False
      with t nth [OF i'] have "updateTimeout (bindings s ! i) = Some t" by simp
      from uniqueIds_less [OF u i' this] show ?thesis by (simp add: nt)
    qed
  next
    fix i j t
    assume i: "i < length (bindings ?s')" and ti: "updateTimeout (bindings ?s' ! i) = Some t"
      and j: "j < length (bindings ?s')" and tj: "updateTimeout (bindings ?s' ! j) = Some t"
    from i j have i': "i < length (bindings s)" and j': "j < length (bindings s)"
      by (simp_all only: len)
    have fresh: "updateTimeout (bindings s ! k) \<noteq> Some (nextTimer s)" if "k < length (bindings s)" for k
    proof
      assume "updateTimeout (bindings s ! k) = Some (nextTimer s)"
      from uniqueIds_less [OF u that this] show False by simp
    qed
    show "j = i"
    proof (cases "i = h")
      case True
      with ti nth [OF i'] have tn: "t = nextTimer s" by simp
      show ?thesis
      proof (rule ccontr)
        assume "j \<noteq> i"
        with True tj nth [OF j'] tn have "updateTimeout (bindings s ! j) = Some (nextTimer s)" by simp
        with fresh [OF j'] show False by simp
      qed
    next
      case False
      with ti nth [OF i'] have oi: "updateTimeout (bindings s ! i) = Some t" by simp
      have "j \<noteq> h"
      proof
        assume "j = h"
        with tj nth [OF j'] have "t = nextTimer s" by simp
        with oi fresh [OF i'] show False by simp
      qed
      with tj nth [OF j'] have "updateTimeout (bindings s ! j) = Some t" by simp
      from uniqueIds_inj [OF u i' oi j' this] show ?thesis .
    qed
  qed
qed

lemma uniqueIds_fold:
  "uniqueIds s \<Longrightarrow> uniqueIds (foldl (\<lambda>s' b. onEditorUpdate b s') s hs)"
  by (induction hs arbitrary: s) (simp_all add: uniqueIds_onEditorUpdate)

lemma uniqueIds_frame:
  "uniqueIds (s\<lparr>editor := e\<rparr>) = uniqueIds s"
  "uniqueIds (s\<lparr>clock := c\<rparr>) = uniqueIds s"
  by (simp_all add: uniqueIds_alt)

lemma uniqueIds_editorEdit: "uniqueIds s \<Longrightarrow> uniqueIds (editorEdit h s)"
  by (cases "editor s") (simp_all add: editorEdit_def uniqueIds_fold uniqueIds_frame)

lemma hasTimer_own:
  assumes "lookupAt (bindings s) h = Some y" and "\<not> isUpdating y"
  shows "hasTimer (clock s) h (onEditorUpdate h s)"
proof -
  have a: "lookupAt (bindings (onEditorUpdate h s)) h = Some (y\<lparr>updateTimeout := Some (nextTimer s)\<rparr>)"
    using assms(1) by (simp add: onEditorUpdate_active [OF assms] lookupAt_modify)
  have b: "(nextTimer s, clock s + 200, Debounce h) \<in> set (timers (onEditorUpdate h s))"
    by (simp add: onEditorUpdate_active [OF assms])
  have c: "updateTimeout (y\<lparr>updateTimeout := Some (nextTimer s)\<rparr>) = Some (nextTimer s)"
    by simp
  from a c b show ?thesis
    unfolding hasTimer_def by blast
qed

lemma hasTimer_other:
  assumes u: "uniqueIds s" and p: "hasTimer c b s" and hb: "h \<noteq> b"
  shows "hasTimer c b (onEditorUpdate h s)"
proof (cases "case lookupAt (bindings s) h of None \<Rightarrow> True | Some x \<Rightarrow> isUpdating x")
  case True
  with p show ?thesis by (simp add: onEditorUpdate_skip)
next
  case False
  then obtain y where y: "lookupAt (bindings s) h = Some y" "\<not> isUpdating y"
    by (auto split: option.splits)
  from p obtain x t where x: "lookupAt (bindings s) b = Some x" "updateTimeout x = Some t"
    "(t, c + 200, Debounce b) \<in> set (timers s)"
    unfolding hasTimer_def by blast
  from y(1) have hl: "h < length (bindings s)" and yh: "y = bindings s ! h"
    by (auto simp: lookupAt_def split: if_splits)
  from x(1) have bl: "b < length (bindings s)" and xb: "x = bindings s ! b"
    by (auto simp: lookupAt_def split: if_splits)
  have ne: "updateTimeout y \<noteq> Some t"
  proof
    assume "updateTimeout y = Some t"
    then have 1: "updateTimeout (bindings s ! h) = Some t" by (simp add: yh)
    from x(2) have 2: "updateTimeout (bindings s ! b) = Some t" by (simp add: xb)
    from uniqueIds_inj [OF u bl 2 hl 1] hb show False by simp
  qed
  then have "(t, c + 200, Debounce b) \<in>
      set (case updateTimeout y of Some t0 \<Rightarrow> filter (\<lambda>y. fst y \<noteq> t0) (timers s) | None \<Rightarrow> timers s)"
    using x(3) by (cases "updateTimeout y") simp_all
  then have b: "(t, c + 200, Debounce b) \<in> set (timers (onEditorUpdate h s))"
    by (simp add: onEditorUpdate_active [OF y])
  have a: "lookupAt (bindings (onEditorUpdate h s)) b = Some x"
    using x(1) hb by (simp add: onEditorUpdate_active [OF y] lookupAt_modify)
  from a x(2) b show ?thesis
    unfolding hasTimer_def by blast
qed

lemma active_onEditorUpdate:
  assumes "lookupAt (bindings s) b = Some x" and "\<not> isUpdating x"
  shows "\<exists>x'. lookupAt (bindings (onEditorUpdate h s)) b = Some x' \<and> \<not> isUpdating x'"
proof (cases "case lookupAt (bindings s) h of None \<Rightarrow> True | Some x \<Rightarrow> isUpdating x")
  case True
  with assms show ?thesis by (simp add: onEditorUpdate_skip)
next
  case False
  then obtain y where y: "lookupAt (bindings s) h = Some y" "\<not> isUpdating y"
    by (auto split: option.splits)
  from assms y show ?thesis
    by (cases "b = h") (simp_all add: onEditorUpdate_active [OF y] lookupAt_modify)
qed

lemma hasTimer_fold:
  assumes "uniqueIds s" and "clock s = c"
    and "lookupAt (bindings s) b = Some x" and "\<not> isUpdating x"
    and "b \<in> set hs \<or> hasTimer c b s"
  shows "hasTimer c b (foldl (\<lambda>s' b. onEditorUpdate b s') s hs)"
  using assms
proof (induction hs arbitrary: s x)
  case Nil
  then show ?case by simp
next
  case (Cons h hs)
  let ?s' = "onEditorUpdate h s"
  have u: "uniqueIds ?s'" by (rule uniqueIds_onEditorUpdate [OF Cons.prems(1)])
  have c: "clock ?s' = c" using Cons.prems(2) by simp
  from active_onEditorUpdate [OF Cons.prems(3,4), of h]
  obtain x' where x': "lookupAt (bindings ?s') b = Some x'" "\<not> isUpdating x'" by blast
  have d: "b \<in> set hs \<or> hasTimer c b ?s'"
  proof (cases "h = b")
    case True
    have "hasTimer (clock s) b (onEditorUpdate b s)"
      by (rule hasTimer_own [OF Cons.prems(3,4)])
    with True Cons.prems(2) show ?thesis by simp
  next
    case False
    show ?thesis
    proof (cases "hasTimer c b s")
      case True
      from hasTimer_other [OF Cons.prems(1) True False] show ?thesis ..
    next
      case no: False
      with Cons.prems(5) False show ?thesis by simp
    qed
  qed
  have "hasTimer c b (foldl (\<lambda>s' b. onEditorUpdate b s') ?s' hs)"
    by (rule Cons.IH [OF u c x' d])
  then show ?case by simp
qed

lemma isUpdating_onEditorUpdate:
  "map isUpdating (bindings (onEditorUpdate h s)) = map isUpdating (bindings s)"
  by (simp add: onEditorUpdate_def Let_def setTimeout_def clearTimeout_def map_modify_same
      split: option.splits)

lemma isUpdating_fold:
  "map isUpdating (bindings (foldl (\<lambda>s' b. onEditorUpdate b s') s hs)) = map isUpdating (bindings s)"
  by (induction hs arbitrary: s) (simp_all add: isUpdating_onEditorUpdate)

lemma lookupAt_isUpdating:
  assumes "map isUpdating bs' = map isUpdating bs" and "lookupAt bs' b = Some x'"
  shows "\<exists>x. lookupAt bs b = Some x \<and> isUpdating x = isUpdating x'"
proof -
  from assms(1) have len: "length bs' = length bs" by (rule map_eq_imp_length_eq)
  from assms(2) have b: "b < length bs'" and x': "x' = bs' ! b"
    by (auto simp: lookupAt_def split: if_splits)
  have "isUpdating (bs ! b) = map isUpdating bs ! b" using b len by simp
  also have "\<dots> = isUpdating (bs' ! b)" using b by (simp add: assms(1) [symmetric])
  finally show ?thesis using b len x' by (simp add: lookupAt_def)
qed

lemma coveredI:
  assumes "\<And>b x. b \<in> set (handlersOf s) \<Longrightarrow> lookupAt (bindings s) b = Some x \<Longrightarrow> \<not> isUpdating x \<Longrightarrow>
             \<exists>y \<in> set (timers s). snd (snd y) = Debounce b"
  shows "covered s"
  unfolding covered_def list_all_iff list_ex_iff
proof (rule ballI)
  fix b assume b: "b \<in> set (handlersOf s)"
  show "case lookupAt (bindings s) b of None \<Rightarrow> True
        | Some x \<Rightarrow> isUpdating x \<or> (\<exists>y \<in> set (timers s). snd (snd y) = Debounce b)"
  proof (cases "lookupAt (bindings s) b")
    case None
    then show ?thesis by simp
  next
    case (Some x)
    with assms [OF b Some] show ?thesis by (cases "isUpdating x") simp_all
  qed
qed

lemma coveredD:
  assumes "covered s" and "b \<in> set (handlersOf s)" and "lookupAt (bindings s) b = Some x"
    and "\<not> isUpdating x"
  shows "\<exists>y \<in> set (timers s). snd (snd y) = Debounce b"
proof -
  from assms(1,2) have "case lookupAt (bindings s) b of None \<Rightarrow> True
        | Some x \<Rightarrow> isUpdating x \<or> (\<exists>y \<in> set (timers s). snd (snd y) = Debounce b)"
    unfolding covered_def list_all_iff list_ex_iff by (rule bspec)
  with assms(3,4) show ?thesis by simp
qed

lemma covered_editorEdit:
  assumes "uniqueIds s"
  shows "covered (editorEdit h s)"
proof (cases "editor s")
  case None
  then show ?thesis by (simp add: editorEdit_def covered_def handlersOf_def)
next
  case (Some ed)
  let ?s0 = "s\<lparr>editor := Some (ed\<lparr>html := h\<rparr>)\<rparr>"
  let ?s' = "foldl (\<lambda>s' b. onEditorUpdate b s') ?s0 (updateHandlers ed)"
  have e: "editorEdit h s = ?s'" using Some by (simp add: editorEdit_def)
  have hs: "handlersOf ?s' = updateHandlers ed" by (simp add: handlersOf_def)
  have u0: "uniqueIds ?s0" using assms by (simp add: uniqueIds_frame)
  show ?thesis
    unfolding e
  proof (rule coveredI)
    fix b x'
    assume b: "b \<in> set (handlersOf ?s')" and x': "lookupAt (bindings ?s') b = Some x'"
      and n: "\<not> isUpdating x'"
    from lookupAt_isUpdating [OF isUpdating_fold x']
    obtain x where x: "lookupAt (bindings ?s0) b = Some x" "isUpdating x = isUpdating x'" by blast
    with n have nx: "\<not> isUpdating x" by simp
    have "hasTimer (clock ?s0) b ?s'"
      by (rule hasTimer_fold [OF u0 refl x(1) nx]) (use b in \<open>simp add: hs\<close>)
    then obtain t where "(t, clock ?s0 + 200, Debounce b) \<in> set (timers ?s')"
      unfolding hasTimer_def by blast
    then show "\<exists>y \<in> set (timers ?s'). snd (snd y) = Debounce b"
      by (rule bexI [rotated]) simp
  qed
qed

lemma timerTracked_clock: "timerTracked hs (s\<lparr>clock := c\<rparr>) = timerTracked hs s"
  by (rule ext) (simp add: timerTracked_def split: timer_callback.splits)

lemma clock_frame [simp]:
  "tracked (s\<lparr>clock := c\<rparr>) = tracked s"
  "covered (s\<lparr>clock := c\<rparr>) = covered s"
  by (simp_all add: tracked_def covered_def handlersOf_def timerTracked_clock cong: option.case_cong)

lemma pendingWrites_edit:
  assumes "tracked s" and "uniqueIds s"
  shows "pendingWrites 0 (editorEdit h s)"
  using edit_schedules [OF assms(1), of h] uniqueIds_editorEdit [OF assms(2), of h]
    covered_editorEdit [OF assms(2), of h]
  by (simp add: pendingWrites_def)

lemma pendingWrites_tick:
  "pendingWrites e s \<Longrightarrow> pendingWrites (e + n) (s\<lparr>clock := clock s + n\<rparr>)"
  by (simp add: pendingWrites_def uniqueIds_frame)

lemma pendingWrites_fire:
  assumes "pendingWrites e s" and "e < 200"
  shows "fireTimer E t s = s"
proof (cases "find (\<lambda>x. fst x = t) (timers s)")
  case None
  then show ?thesis by (simp add: fireTimer_def)
next
  case (Some x)
  then have "x \<in> set (timers s)"
    by (auto simp: find_Some_iff)
  with assms(1) have "fst (snd x) + e = clock s + 200"
    by (simp add: pendingWrites_def)
  with assms(2) have "clock s < fst (snd x)" by simp
  with Some show ?thesis
    by (cases x) (simp add: fireTimer_def)
qed

lemma pendingWrites_due:
  assumes p: "pendingWrites e s" and x: "x \<in> set (timers s)" and n: "200 \<le> e + n"
  shows "fireTimer E (fst x) (s\<lparr>clock := clock s + n\<rparr>) =
           debounceCallback E (clearTimeout (fst x) (s\<lparr>clock := clock s + n\<rparr>))"
proof (cases "find (\<lambda>y. fst y = fst x) (timers s)")
  case None
  with x show ?thesis unfolding find_None_iff by blast
next
  case (Some y)
  then have y: "y \<in> set (timers s)"
    by (auto simp: find_Some_iff)
  obtain t due cb where yt: "y = (t, due, cb)" by (cases y)
  from p y have "timerTracked (handlersOf s) s y"
    by (simp add: pendingWrites_def tracked_def list_all_iff)
  then obtain b where cb: "cb = Debounce b"
    by (cases cb) (simp_all add: timerTracked_def yt)
  from p y have "due + e = clock s + 200"
    by (fastforce simp: pendingWrites_def yt)
  with n have "\<not> clock s + n < due" by simp
  with Some yt cb show ?thesis
    by (simp add: fireTimer_def)
qed

lemma fireObservers_local:
  assumes "ydoc s = Some y"
  shows "fireObservers None (Some u) s = s\<lparr>sent := sent s @ map (\<lambda>p. (p, u)) (observers y)\<rparr>"
proof -
  have "foldl (\<lambda>s' p. ydocUpdateHandler p u None s') t ps = t\<lparr>sent := sent t @ map (\<lambda>p. (p, u)) ps\<rparr>"
    for t :: "'a sync_state" and ps
    by (induction ps arbitrary: t) (simp_all add: ydocUpdateHandler_def sendYjsUpdate_def)
  with assms show ?thesis by (simp add: fireObservers_def)
qed

lemma debounceCallback_same:
  "editor s = Some ed \<Longrightarrow> ydoc s = Some y \<Longrightarrow> Some (html ed) = metaGet E (doc y) \<Longrightarrow>
   debounceCallback E s = s"
  by (simp add: debounceCallback_def)

lemma debounceCallback_writes:
  assumes "editor s = Some ed" and "ydoc s = Some y" and "yMetadata s"
    and "Some (html ed) \<noteq> metaGet E (doc y)" and "metaSet E (doc y) (html ed) = (d', em)"
  shows "ydoc (debounceCallback E s) = Some (y\<lparr>doc := d'\<rparr>)"
    and "sent (debounceCallback E s) =
           sent s @ (case em of None \<Rightarrow> [] | Some u \<Rightarrow> map (\<lambda>p. (p, u)) (observers y))"
proof -
  have m: "debounceCallback E s = fireObservers None em (s\<lparr>ydoc := Some (y\<lparr>doc := d'\<rparr>)\<rparr>)"
    using assms by (simp add: debounceCallback_def metadataSet_def)
  show "ydoc (debounceCallback E s) = Some (y\<lparr>doc := d'\<rparr>)"
    by (cases em) (simp_all add: m fireObservers_local [where y = "y\<lparr>doc := d'\<rparr>"], simp add: fireObservers_def)
  show "sent (debounceCallback E s) =
           sent s @ (case em of None \<Rightarrow> [] | Some u \<Rightarrow> map (\<lambda>p. (p, u)) (observers y))"
    by (cases em) (simp_all add: m fireObservers_local [where y = "y\<lparr>doc := d'\<rparr>"], simp add: fireObservers_def)
qed

lemma burst_quiet:
  assumes "pendingWrites e s" and "e < 200" and "paced e evs"
  shows "sent (run E evs s) = sent s \<and> ydoc (run E evs s) = ydoc s \<and>
         yMetadata (run E evs s) = yMetadata s \<and>
         editor (run E evs s) = map_option (\<lambda>ed. ed\<lparr>html := lastHtml (html ed) evs\<rparr>) (editor s) \<and>
         pendingWrites (sinceEdit e evs) (run E evs s) \<and> sinceEdit e evs < 200"
  using assms
proof (induction evs arbitrary: s e)
  case Nil
  then show ?case by (cases "editor s") (simp_all add: run_def)
next
  case (Cons ev evs)
  show ?case
  proof (cases ev)
    case (EditorEdit h)
    have r: "run E (EditorEdit h # evs) s = run E evs (editorEdit h s)"
      by (simp add: run_def)
    from Cons.prems have "tracked s" "uniqueIds s" by (simp_all add: pendingWrites_def)
    then have n: "pendingWrites 0 (editorEdit h s)" by (rule pendingWrites_edit)
    from Cons.prems EditorEdit have p: "paced 0 evs" by simp
    from Cons.IH [OF n _ p] show ?thesis
      unfolding EditorEdit r by (cases "editor s") simp_all
  next
    case (Tick n)
    have r: "run E (Tick n # evs) s = run E evs (s\<lparr>clock := clock s + n\<rparr>)"
      by (simp add: run_def)
    from Tick Cons.prems have lt: "e + n < 200" and p: "paced (e + n) evs" by simp_all
    from Cons.IH [OF pendingWrites_tick [OF Cons.prems(1), of n] lt p] show ?thesis
      unfolding Tick r by simp
  next
    case (FireTimer t)
    have r: "run E (FireTimer t # evs) s = run E evs s"
      by (simp add: run_def pendingWrites_fire [OF Cons.prems(1,2)])
    from FireTimer Cons.prems have p: "paced e evs" by simp
    from Cons.IH [OF Cons.prems(1,2) p] show ?thesis
      unfolding FireTimer r by simp
  qed (use Cons.prems in simp_all)
qed

lemma isUpdating_editorEdit:
  "map isUpdating (bindings (editorEdit h s)) = map isUpdating (bindings s)"
  by (cases "editor s") (simp_all add: editorEdit_def isUpdating_fold)

lemma burst_bindings:
  assumes "pendingWrites e s" and "e < 200" and "paced e evs"
  shows "map isUpdating (bindings (run E evs s)) = map isUpdating (bindings s)"
  using assms
proof (induction evs arbitrary: s e)
  case Nil
  then show ?case by (simp add: run_def)
next
  case (Cons ev evs)
  show ?case
  proof (cases ev)
    case (EditorEdit h)
    have r: "run E (EditorEdit h # evs) s = run E evs (editorEdit h s)"
      by (simp add: run_def)
    from Cons.prems have "tracked s" "uniqueIds s" by (simp_all add: pendingWrites_def)
    then have n: "pendingWrites 0 (editorEdit h s)" by (rule pendingWrites_edit)
    from Cons.prems EditorEdit have p: "paced 0 evs" by simp
    from Cons.IH [OF n _ p] show ?thesis
      unfolding EditorEdit r by (simp add: isUpdating_editorEdit)
  next
    case (Tick n)
    have r: "run E (Tick n # evs) s = run E evs (s\<lparr>clock := clock s + n\<rparr>)"
      by (simp add: run_def)
    from Tick Cons.prems have lt: "e + n < 200" and p: "paced (e + n) evs" by simp_all
    from Cons.IH [OF pendingWrites_tick [OF Cons.prems(1), of n] lt p] show ?thesis
      unfolding Tick r by simp
  next
    case (FireTimer t)
    have r: "run E (FireTimer t # evs) s = run E evs s"
      by (simp add: run_def pendingWrites_fire [OF Cons.prems(1,2)])
    from FireTimer Cons.prems have p: "paced e evs" by simp
    from Cons.IH [OF Cons.prems(1,2) p] show ?thesis
      unfolding FireTimer r by simp
  qed (use Cons.prems in simp_all)
qed

lemma run_append: "run E (evs @ evs') s = run E evs' (run E evs s)"
  by (simp add: run_def)

lemma frame_clearTimeout [simp]:
  "editor (clearTimeout t s) = editor s"
  "ydoc (clearTimeout t s) = ydoc s"
  "yMetadata (clearTimeout t s) = yMetadata s"
  "sent (clearTimeout t s) = sent s"
  by (simp_all add: clearTimeout_def)

lemma gate_onYjsUpdate:
  assumes "editor s = Some ed" and "hasFocus ed"
  shows "editor (onYjsUpdate E payload s) = Some ed"
    and "sources (onYjsUpdate E payload s) = sources s"
    and "yMetadata (onYjsUpdate E payload s) = yMetadata s"
  using assms
  by (simp_all add: onYjsUpdate_def Let_def applyRemoteContent_def setPending_def
      split: option.splits prod.splits)

lemma gate_run:
  assumes "editor s = Some ed" and "hasFocus ed"
  shows "editor (run E (map (YjsUpdate i) us) s) = Some ed \<and>
         sources (run E (map (YjsUpdate i) us) s) = sources s \<and>
         yMetadata (run E (map (YjsUpdate i) us) s) = yMetadata s"
  using assms(1)
proof (induction us arbitrary: s)
  case Nil
  then show ?case by (simp add: run_def)
next
  case (Cons u us)
  have r: "run E (map (YjsUpdate i) (u # us)) s = run E (map (YjsUpdate i) us) (step E (YjsUpdate i u) s)"
    by (simp add: run_def)
  have st: "editor (step E (YjsUpdate i u) s) = Some ed \<and>
        sources (step E (YjsUpdate i u) s) = sources s \<and>
        yMetadata (step E (YjsUpdate i u) s) = yMetadata s"
    using gate_onYjsUpdate [OF Cons.prems assms(2), of E u] Cons.prems
    by (simp add: onPageStream_def split: option.splits stream.splits)
  from Cons.IH [of "step E (YjsUpdate i u) s"] st show ?case
    unfolding r by simp
qed

lemma gate_stored:
  assumes ed: "editor s = Some ed" "hasFocus ed" "setPendingRemoteUpdate ed = Some b"
    and bind: "lookupAt (bindings s) b = Some x"
    and doc: "ydoc s = Some y" "yMetadata s" "applyUpdate E (doc y) u = Some (d', em)"
  shows "map_option remoteUpdatePending (lookupAt (bindings (onYjsUpdate E (Some u) s)) b) =
           Some (case metaGet E d' of
                   None \<Rightarrow> remoteUpdatePending x
                 | Some c \<Rightarrow> if truthy c \<and> c \<noteq> html ed then Some c else remoteUpdatePending x)"
  using assms
  by (simp add: onYjsUpdate_def Let_def applyRemoteContent_def setPending_def lookupAt_modify
      split: option.splits)

lemma trim_unicode:
  "trim ([CHR 0xC2, CHR 0xA0] @ '' a b '' @ [CHR 0xEF, CHR 0xBB, CHR 0xBF, CHR 0x0A]) = ''a b''"
  by code_simp

section \<open>The claims\<close>

text \<open>
  Every theorem quantifies over the engine \<open>E\<close>; a reachable state is
  \<open>run E evs (initSyncManager app (moduleLoad items cv))\<close>, the module after any list of
  events.
\<close>

text \<open>
  C1. While the page stream is open, every \<open>yjs-update\<close> event is merged into the
  document by \<open>Y.applyUpdate\<close>, whatever the editor does in between (focus, blur, edits,
  time passing): after any such events the document is the one before with the payloads
  of all updates merged in their order. Only the gate that follows the merge looks at
  the focus.
\<close>

theorem remote_updates_always_merged:
  assumes "openStream s i = Some (PageStream p enc)" and "\<forall>ev \<in> set evs. gateEvent i ev"
  shows "ydoc (run E evs s) =
           map_option (\<lambda>y. y\<lparr>doc := foldl (merged E) (doc y) (remoteUpdates evs)\<rparr>) (ydoc s)"
  using assms
proof (induction evs arbitrary: s)
  case Nil
  then show ?case by (simp add: run_def doc_identity)
next
  case (Cons ev evs)
  from Cons.prems have g: "gateEvent i ev" by simp
  have "links (step E ev s) = links s"
    by (rule links_step) (rule gate_not_connection [OF g])
  from openStream_links [OF this, of i] Cons.prems(1)
  have o: "openStream (step E ev s) i = Some (PageStream p enc)"
    by simp
  have "ydoc (run E (ev # evs) s) = ydoc (run E evs (step E ev s))"
    by (simp add: run_def)
  also have "\<dots> = map_option (\<lambda>y. y\<lparr>doc := foldl (merged E) (doc y) (remoteUpdates evs)\<rparr>)
                     (ydoc (step E ev s))"
    using Cons.IH [OF o] Cons.prems(2) by simp
  also have "\<dots> = map_option (\<lambda>y. y\<lparr>doc := foldl (merged E) (doc y) (remoteUpdates (ev # evs))\<rparr>)
                     (ydoc s)"
  proof (cases "ydoc s")
    case None
    then show ?thesis by (simp add: ydoc_gate_step [OF Cons.prems(1) g])
  next
    case (Some y)
    have "foldl (merged E) (doc y) (remoteUpdates (ev # evs)) =
          foldl (merged E) (foldl (merged E) (doc y) (remoteUpdates [ev])) (remoteUpdates evs)"
      by (subst remoteUpdates_Cons) (simp only: foldl_append)
    with Some show ?thesis
      by (simp only: ydoc_gate_step [OF Cons.prems(1) g] option.map) simp
  qed
  finally show ?case .
qed

text \<open>
  The theorem at a focused editor: two updates around a blur, both merged.
\<close>

theorem remote_updates_always_merged_witness:
  "ydoc (run registerEngine
      [YjsUpdate 0 (Some (bytes ''a'')), EditorBlur, YjsUpdate 0 (Some (bytes ''b''))] gateState) =
   Some \<lparr>doc = Some ''b'', observers = [''p1'']\<rparr>"
proof -
  have "\<forall>ev \<in> set [YjsUpdate 0 (Some (bytes ''a'')), EditorBlur, YjsUpdate 0 (Some (bytes ''b''))].
          gateEvent 0 ev"
    by simp
  from remote_updates_always_merged [OF gateState_fields(5) this, of registerEngine]
  have "ydoc (run registerEngine
      [YjsUpdate 0 (Some (bytes ''a'')), EditorBlur, YjsUpdate 0 (Some (bytes ''b''))] gateState) =
    Some \<lparr>doc = foldl (merged registerEngine) (Some ''<p>x</p>'') [bytes ''a'', bytes ''b''],
          observers = [''p1'']\<rparr>"
    by (simp add: gateState_fields(3))
  moreover have "foldl (merged registerEngine) (Some ''<p>x</p>'') [bytes ''a'', bytes ''b''] = Some ''b''"
    by code_simp
  ultimately show ?thesis by simp
qed

text \<open>
  C2 (amended). While the editor has focus a \<open>yjs-update\<close> leaves the editor as it is.
  When the merged content is non-empty and differs from what the editor shows, and the
  hook of the latest binding is installed, the content is stored in that binding's
  pending slot; it is the content of the merged document at that moment. The next blur,
  directly or after local edits, timers and time passing, puts the stored content into
  the editor and empties the slot.
\<close>

theorem focused_remote_update_deferred:
  assumes ed: "editor s = Some ed" and focus: "hasFocus ed"
    and hook: "setPendingRemoteUpdate ed = Some b"
    and last: "blurHandlers ed = hs @ [b]" "b \<notin> set hs"
    and bind: "lookupAt (bindings s) b = Some x"
    and doc: "ydoc s = Some y" "yMetadata s" "applyUpdate E (doc y) u = Some (d', em)"
    and content: "metaGet E d' = Some c" "truthy c" "c \<noteq> html ed"
    and quiet: "\<forall>ev \<in> set evs. quietEvent ev"
  shows "editor (onYjsUpdate E (Some u) s) = Some ed \<and>
         lookupAt (bindings (onYjsUpdate E (Some u) s)) b = Some (x\<lparr>remoteUpdatePending := Some c\<rparr>) \<and>
         map_option (\<lambda>y. metaGet E (doc y)) (ydoc (onYjsUpdate E (Some u) s)) = Some (Some c) \<and>
         map_option html (editor (editorBlur (onYjsUpdate E (Some u) s))) = Some c \<and>
         map_option html (editor (editorBlur (run E evs (onYjsUpdate E (Some u) s)))) = Some c \<and>
         map_option remoteUpdatePending
           (lookupAt (bindings (editorBlur (run E evs (onYjsUpdate E (Some u) s)))) b) = Some None"
proof -
  let ?s1 = "onYjsUpdate E (Some u) s"
  have e1: "editor ?s1 = Some ed"
    by (rule focused_update [OF ed focus])
  have b1: "lookupAt (bindings ?s1) b = Some (x\<lparr>remoteUpdatePending := Some c\<rparr>)"
    and d1: "ydoc ?s1 = Some (y\<lparr>doc := d'\<rparr>)"
    by (rule focused_update_stored [OF ed focus hook bind doc content])+
  have direct: "map_option html (editor (editorBlur ?s1)) = Some c"
    by (rule blur_applies(1) [OF e1 last b1 _ content(2)]) simp
  from pview_facts [OF pview_run [OF quiet, of E ?s1] e1 b1]
  obtain ed2 x2 where 2: "editor (run E evs ?s1) = Some ed2" "blurHandlers ed2 = blurHandlers ed"
    "lookupAt (bindings (run E evs ?s1)) b = Some x2" "remoteUpdatePending x2 = Some c"
    by auto
  have l2: "blurHandlers ed2 = hs @ [b]" using 2(2) last(1) by simp
  have later: "map_option html (editor (editorBlur (run E evs ?s1))) = Some c"
    "map_option remoteUpdatePending (lookupAt (bindings (editorBlur (run E evs ?s1))) b) = Some None"
    by (rule blur_applies [OF 2(1) l2 last(2) 2(3,4) content(2)])+
  from e1 b1 d1 content(1) direct later show ?thesis by simp
qed

text \<open>
  The theorem at a focused editor after the initial snapshot.
\<close>

theorem focused_remote_update_deferred_witness:
  "map_option html (editor (onYjsUpdate registerEngine (Some (bytes ''<p>remote</p>'')) gateState)) =
     Some ''<p>x</p>'' \<and>
   map_option html (editor (editorBlur (onYjsUpdate registerEngine (Some (bytes ''<p>remote</p>'')) gateState))) =
     Some ''<p>remote</p>'' \<and>
   map_option html (editor (editorBlur (run registerEngine
       [EditorEdit ''<p>local</p>'', Tick 200, FireTimer 1]
       (onYjsUpdate registerEngine (Some (bytes ''<p>remote</p>'')) gateState)))) =
     Some ''<p>remote</p>''"
proof -
  have a: "hasFocus gateEditor" "setPendingRemoteUpdate gateEditor = Some 0"
    "blurHandlers gateEditor = [] @ [0]" "0 \<notin> set ([] :: nat list)"
    by (simp_all add: gateEditor_def)
  have b: "applyUpdate registerEngine (doc \<lparr>doc = Some ''<p>x</p>'', observers = [''p1'']\<rparr>)
             (bytes ''<p>remote</p>'') = Some (Some ''<p>remote</p>'', Some (bytes ''<p>remote</p>''))"
    by code_simp
  have c: "metaGet registerEngine (Some ''<p>remote</p>'') = Some ''<p>remote</p>''"
    "truthy ''<p>remote</p>''" "''<p>remote</p>'' \<noteq> html gateEditor"
    by (simp_all add: registerEngine_def truthy_def gateEditor_def)
  have d: "\<forall>ev \<in> set [EditorEdit ''<p>local</p>'', Tick 200, FireTimer 1]. quietEvent ev"
    by simp
  from focused_remote_update_deferred [OF gateState_fields(1) a gateState_fields(2,3,4) b c d]
  show ?thesis by (simp add: gateEditor_def)
qed

text \<open>
  C2 as stated fails: the blur applies the content as it was stored, not the merged
  state at the time of the blur. Here a remote update arrives while the editor has
  focus, the user keeps typing, the debounce timer writes the typed content into the
  document, and the blur then replaces the editor content by the older remote content.
\<close>

theorem blur_shows_stale_content:
  "map_option html (editor afterLocalEdit) = Some ''<p>remote</p>'' \<and>
   map_option (\<lambda>y. metaGet registerEngine (doc y)) (ydoc afterLocalEdit) = Some (Some ''<p>local</p>'')"
  by code_simp

text \<open>
  C3 (amended). Starting page sync with \<open>isEncrypted = true\<close> changes nothing but the
  notice shown: no event source is created and the document is left as it is. As long as
  page \<open>p\<close> is only ever started with the flag set, and the application did not hand \<open>p\<close>
  over as the current page id at initialisation, no stream for \<open>p\<close> exists after any
  events, reconnection timers, connectivity and visibility signals included.
\<close>

theorem encrypted_page_never_synced:
  "startPageSync E p True s = s\<lparr>notices := notices s @ [EncryptedNotSupported]\<rparr> \<and>
   sources (startPageSync E p True s) = sources s \<and>
   ydoc (startPageSync E p True s) = ydoc s \<and>
   (appCurrentPageId app \<noteq> Some p \<and> StartPageSync p False \<notin> set evs \<longrightarrow>
      pageStreams p (run E evs (initSyncManager app (moduleLoad items cv))) = [])"
proof -
  have "pageStreams p (run E evs (initSyncManager app (moduleLoad items cv))) = []"
    if "appCurrentPageId app \<noteq> Some p" and "StartPageSync p False \<notin> set evs"
    using unsynced_run [OF unsynced_initial [OF that(1)] that(2), of E items cv]
    by (simp add: unsynced_def)
  then show ?thesis by (simp add: startPageSync_def showInfo_def)
qed

text \<open>
  The theorem on a run that syncs another page, fails, reconnects and receives both signals.
\<close>

theorem encrypted_page_never_synced_witness:
  "appCurrentPageId (plainApp ''<p>x</p>'') \<noteq> Some ''p1'' \<and>
   StartPageSync ''p1'' False \<notin> set demoTrace \<and>
   pageStreams ''p1'' (run registerEngine demoTrace
      (initSyncManager (plainApp ''<p>x</p>'') (moduleLoad [] noCover))) = [] \<and>
   length (sources (run registerEngine demoTrace
      (initSyncManager (plainApp ''<p>x</p>'') (moduleLoad [] noCover)))) = 3"
proof -
  have a: "appCurrentPageId (plainApp ''<p>x</p>'') \<noteq> Some ''p1''"
    by (simp add: plainApp_def)
  have b: "StartPageSync ''p1'' False \<notin> set demoTrace"
    by (simp add: demoTrace_def)
  have c: "length (sources (run registerEngine demoTrace
      (initSyncManager (plainApp ''<p>x</p>'') (moduleLoad [] noCover)))) = 3"
    by code_simp
  from a b c encrypted_page_never_synced [of registerEngine "''p1''" _ "plainApp ''<p>x</p>''" demoTrace "[]" noCover]
  show ?thesis by simp
qed

text \<open>
  C3 as stated fails: the module keeps no record of the flag, and the handler of the
  \<open>online\<close> signal starts the current page id with \<open>isEncrypted = false\<close>. Here the
  application hands over \<open>p9\<close> as current page id, \<open>p9\<close> is started with the flag set
  (nothing is opened, no document exists), and the \<open>online\<close> signal then opens a stream for
  \<open>p9\<close> and creates its document.
\<close>

theorem encrypted_page_synced_after_online:
  "map target (sources (run registerEngine [StartPageSync ''p9'' True, Online]
      (initSyncManager ((plainApp ''<p>x</p>'')\<lparr>appCurrentPageId := Some ''p9''\<rparr>) (moduleLoad [] noCover)))) =
     [PageStream ''p9'' False] \<and>
   map readyState (pageStreams ''p9'' (run registerEngine [StartPageSync ''p9'' True, Online]
      (initSyncManager ((plainApp ''<p>x</p>'')\<lparr>appCurrentPageId := Some ''p9''\<rparr>) (moduleLoad [] noCover)))) =
     [CONNECTING] \<and>
   ydoc (run registerEngine [StartPageSync ''p9'' True, Online]
      (initSyncManager ((plainApp ''<p>x</p>'')\<lparr>appCurrentPageId := Some ''p9''\<rparr>) (moduleLoad [] noCover))) =
     Some \<lparr>doc = None, observers = [''p9'']\<rparr> \<and>
   ydoc (run registerEngine [StartPageSync ''p9'' True]
      (initSyncManager ((plainApp ''<p>x</p>'')\<lparr>appCurrentPageId := Some ''p9''\<rparr>) (moduleLoad [] noCover))) =
     None"
  by code_simp

text \<open>
  C4. An error on an open page stream closes the stream and schedules the reconnect
  callback exactly 3000 ms later, always with the same delay. The timer does nothing
  before that; when it fires, it calls \<open>startPageSync\<close> for the page (opening one more
  stream) exactly when the current page id is still that page. After \<open>stopPageSync\<close>, which
  clears the current page id, the timer fires without reconnecting.
\<close>

theorem transport_error_reconnects:
  assumes live: "lookupAt (sources s) i = Some e" "target e = PageStream p False" "readyState e \<noteq> CLOSED"
    and fresh: "\<forall>x \<in> set (timers s). fst x \<noteq> nextTimer s"
  shows "lookupAt (sources (sourceError i s)) i = Some (e\<lparr>readyState := CLOSED\<rparr>) \<and>
         timers (sourceError i s) = timers s @ [(nextTimer s, clock s + 3000, Reconnect p False)] \<and>
         (n < 3000 \<longrightarrow>
            run E [SourceError i, Tick n, FireTimer (nextTimer s)] s = run E [SourceError i, Tick n] s) \<and>
         (3000 \<le> n \<and> currentPageId s = Some p \<longrightarrow>
            run E [SourceError i, Tick n, FireTimer (nextTimer s)] s =
              startPageSync E p False (clearTimeout (nextTimer s) (run E [SourceError i, Tick n] s))) \<and>
         (3000 \<le> n \<and> currentPageId s \<noteq> Some p \<longrightarrow>
            run E [SourceError i, Tick n, FireTimer (nextTimer s)] s =
              clearTimeout (nextTimer s) (run E [SourceError i, Tick n] s)) \<and>
         (length (sources (run E [SourceError i, Tick n, FireTimer (nextTimer s)] s)) = Suc (length (sources s))
            \<longleftrightarrow> 3000 \<le> n \<and> currentPageId s = Some p) \<and>
         run E [SourceError i, StopPageSync, Tick n, FireTimer (nextTimer s)] s =
           (if n < 3000 then run E [SourceError i, StopPageSync, Tick n] s
            else clearTimeout (nextTimer s) (run E [SourceError i, StopPageSync, Tick n] s))"
proof -
  define t where "t = nextTimer s"
  define s1 where "s1 = sourceError i s"
  define s2 where "s2 = run E [SourceError i, Tick n] s"
  define s3 where "s3 = run E [SourceError i, StopPageSync, Tick n] s"
  have s1: "s1 = s\<lparr>sources := modify i (\<lambda>e. e\<lparr>readyState := CLOSED\<rparr>) (sources s),
             timers := timers s @ [(t, clock s + 3000, Reconnect p False)],
             nextTimer := Suc t\<rparr>"
    unfolding s1_def t_def by (rule sourceError_page [OF live])
  have a: "lookupAt (sources s1) i = Some (e\<lparr>readyState := CLOSED\<rparr>)"
    using live(1) by (simp add: s1 lookupAt_def modify_def split: if_splits)
  have b: "timers s1 = timers s @ [(t, clock s + 3000, Reconnect p False)]"
    by (simp add: s1)
  have fr: "\<forall>x \<in> set (timers s). fst x \<noteq> t"
    using fresh by (simp add: t_def)
  have s2: "s2 = s1\<lparr>clock := clock s + n\<rparr>"
    by (simp add: s2_def run_def s1_def [symmetric]) (simp add: s1)
  have f2: "find (\<lambda>x. fst x = t) (timers s2) = Some (t, clock s + 3000, Reconnect p False)"
    using find_append_fresh [OF fr] by (simp add: s2 s1)
  have c2: "clock s2 = clock s + n" "currentPageId s2 = currentPageId s"
    "length (sources s2) = length (sources s)"
    by (simp_all add: s2 s1)
  have fire: "fireTimer E t s2 =
           (if n < 3000 then s2
            else if currentPageId s = Some p then startPageSync E p False (clearTimeout t s2)
            else clearTimeout t s2)"
    by (simp only: fireTimer_reconnect [OF f2] c2) simp
  have r2: "run E [SourceError i, Tick n, FireTimer t] s = fireTimer E t s2"
    by (simp add: s2_def run_def)
  have l1: "length (sources (startPageSync E p False (clearTimeout t s2))) = Suc (length (sources s))"
    by (simp add: startPageSync_fields clearTimeout_def c2)
  have l2: "length (sources (clearTimeout t s2)) = length (sources s)"
    by (simp add: clearTimeout_def c2)
  have len: "length (sources (fireTimer E t s2)) = Suc (length (sources s))
            \<longleftrightarrow> 3000 \<le> n \<and> currentPageId s = Some p"
    by (simp add: fire l1 l2 c2)
  have s3: "s3 = (stopPageSync s1)\<lparr>clock := clock s + n\<rparr>"
    by (simp add: s3_def run_def s1_def [symmetric])
       (simp add: s1 stopPageSync_def Let_def closeSource_def split: option.splits)
  have f3: "find (\<lambda>x. fst x = t) (timers s3) = Some (t, clock s + 3000, Reconnect p False)"
    using find_append_fresh [OF fr]
    by (simp add: s3 s1 stopPageSync_def Let_def closeSource_def split: option.splits)
  have c3: "clock s3 = clock s + n" "currentPageId s3 = None"
    by (simp_all add: s3)
  have stop: "fireTimer E t s3 = (if n < 3000 then s3 else clearTimeout t s3)"
    by (simp only: fireTimer_reconnect [OF f3] c3) simp
  have r3: "run E [SourceError i, StopPageSync, Tick n, FireTimer t] s = fireTimer E t s3"
    by (simp add: s3_def run_def)
  from a b fire len stop show ?thesis
    unfolding t_def [symmetric] r2 r3 s2_def [symmetric] s3_def [symmetric] s1_def [symmetric]
    by simp
qed

text \<open>
  The theorem on a stream that fails right after opening.
\<close>

theorem transport_error_reconnects_witness:
  "length (sources (run registerEngine [SourceError 0, Tick 2999, FireTimer 1] failedStream)) \<noteq> 2 \<and>
   length (sources (run registerEngine [SourceError 0, Tick 3000, FireTimer 1] failedStream)) = 2 \<and>
   length (sources (run registerEngine [SourceError 0, StopPageSync, Tick 3000, FireTimer 1] failedStream)) = 1"
proof -
  have a: "lookupAt (sources failedStream) 0 = Some \<lparr>target = PageStream ''p1'' False, readyState = OPEN\<rparr>"
    "nextTimer failedStream = 1" "timers failedStream = []" "currentPageId failedStream = Some ''p1''"
    "length (sources failedStream) = 1"
    by code_simp+
  have b: "target \<lparr>target = PageStream ''p1'' False, readyState = OPEN\<rparr> = PageStream ''p1'' False"
    "readyState \<lparr>target = PageStream ''p1'' False, readyState = OPEN\<rparr> \<noteq> CLOSED"
    "\<forall>x \<in> set (timers failedStream). fst x \<noteq> nextTimer failedStream"
    by (simp_all add: a)
  have c: "length (sources (run registerEngine [SourceError 0, StopPageSync, Tick 3000] failedStream)) = 1"
    by code_simp
  note i1 = transport_error_reconnects [OF a(1) b, where E = registerEngine and n = 2999]
  note i2 = transport_error_reconnects [OF a(1) b, where E = registerEngine and n = 3000]
  from i1 have "length (sources (run registerEngine [SourceError 0, Tick 2999, FireTimer (nextTimer failedStream)] failedStream))
      = Suc (length (sources failedStream)) \<longleftrightarrow> (3000::nat) \<le> 2999 \<and> currentPageId failedStream = Some ''p1''"
    by blast
  then have w1: "length (sources (run registerEngine [SourceError 0, Tick 2999, FireTimer 1] failedStream)) \<noteq> 2"
    by (simp add: a)
  from i2 have "length (sources (run registerEngine [SourceError 0, Tick 3000, FireTimer (nextTimer failedStream)] failedStream))
      = Suc (length (sources failedStream)) \<longleftrightarrow> (3000::nat) \<le> 3000 \<and> currentPageId failedStream = Some ''p1''"
    by blast
  then have w2: "length (sources (run registerEngine [SourceError 0, Tick 3000, FireTimer 1] failedStream)) = 2"
    by (simp add: a)
  from i2 have "run registerEngine [SourceError 0, StopPageSync, Tick 3000, FireTimer (nextTimer failedStream)] failedStream =
           (if (3000::nat) < 3000 then run registerEngine [SourceError 0, StopPageSync, Tick 3000] failedStream
            else clearTimeout (nextTimer failedStream) (run registerEngine [SourceError 0, StopPageSync, Tick 3000] failedStream))"
    by blast
  then have w3: "length (sources (run registerEngine [SourceError 0, StopPageSync, Tick 3000, FireTimer 1] failedStream)) = 1"
    by (simp add: a c clearTimeout_def)
  from w1 w2 w3 show ?thesis by blast
qed


text \<open>
  C6. In every reachable state at most one page stream and at most one collection stream
  is not closed; right after a start, the stream just created is the only one.
\<close>

theorem at_most_one_active_sync:
  "length (activePageSyncs (run E evs (initSyncManager app (moduleLoad items cv)))) \<le> 1 \<and>
   length (activeCollectionSyncs (run E evs (initSyncManager app (moduleLoad items cv)))) \<le> 1 \<and>
   activePageSyncs (startPageSync E p False (run E evs (initSyncManager app (moduleLoad items cv)))) =
     [length (sources (run E evs (initSyncManager app (moduleLoad items cv))))] \<and>
   activeCollectionSyncs (startCollectionSync c (run E evs (initSyncManager app (moduleLoad items cv)))) =
     [length (sources (run E evs (initSyncManager app (moduleLoad items cv))))]"
proof -
  let ?s = "run E evs (initSyncManager app (moduleLoad items cv))"
  have s: "single ?s" by (rule single_reachable)
  have "length (activePageSyncs ?s) \<le> 1" and "length (activeCollectionSyncs ?s) \<le> 1"
    and "activePageSyncs (startPageSync E p False ?s) = [length (sources ?s)]"
    and "activeCollectionSyncs (startCollectionSync c ?s) = [length (sources ?s)]"
    using s by (rule single_activePage single_activeCollection activePageSyncs_start
        activeCollectionSyncs_start)+
  then show ?thesis by blast
qed

text \<open>
  C7. From a state whose pending timers are the debounce timers of the editor's update
  handlers, take an edit followed by any burst of further edits, pauses shorter than
  200 ms since the last edit, and attempts to fire timers. Nothing is posted and the
  document is left as it is during the burst; after it every update handler that is not
  muted has a timer pending, and every pending timer is a debounce timer due exactly
  200 ms after the last edit of the burst, which is still in the future. Once 200 ms have
  passed since the last edit, firing such a timer writes the content of the last edit
  into the document and posts the one resulting update to each page observing the
  document, when that content differs from the stored content; when it is equal, nothing
  is written and nothing is posted.
\<close>

theorem edits_are_debounced:
  assumes "tracked s" and "uniqueIds s" and "paced 0 evs"
  shows "sent (run E (EditorEdit h # evs) s) = sent s \<and>
         ydoc (run E (EditorEdit h # evs) s) = ydoc s \<and>
         (editor s = Some ed \<and> b \<in> set (updateHandlers ed) \<and>
          lookupAt (bindings s) b = Some z \<and> \<not> isUpdating z \<longrightarrow>
            (\<exists>x \<in> set (timers (run E (EditorEdit h # evs) s)). snd (snd x) = Debounce b)) \<and>
         (\<forall>x \<in> set (timers (editorEdit h s)). fst (snd x) = clock s + 200) \<and>
         (\<forall>x \<in> set (timers (run E (EditorEdit h # evs) s)).
            (\<exists>b. snd (snd x) = Debounce b) \<and>
            fst (snd x) + sinceEdit 0 evs = clock (run E (EditorEdit h # evs) s) + 200 \<and>
            clock (run E (EditorEdit h # evs) s) < fst (snd x)) \<and>
         (x \<in> set (timers (run E (EditorEdit h # evs) s)) \<and> 200 \<le> sinceEdit 0 evs + n \<and>
          editor s = Some ed \<and> ydoc s = Some y \<and> yMetadata s \<and>
          metaSet E (doc y) (lastHtml h evs) = (d', em) \<longrightarrow>
            (Some (lastHtml h evs) \<noteq> metaGet E (doc y) \<longrightarrow>
               ydoc (run E ((EditorEdit h # evs) @ [Tick n, FireTimer (fst x)]) s) = Some (y\<lparr>doc := d'\<rparr>) \<and>
               sent (run E ((EditorEdit h # evs) @ [Tick n, FireTimer (fst x)]) s) =
                 sent s @ (case em of None \<Rightarrow> [] | Some u \<Rightarrow> map (\<lambda>p. (p, u)) (observers y))) \<and>
            (Some (lastHtml h evs) = metaGet E (doc y) \<longrightarrow>
               ydoc (run E ((EditorEdit h # evs) @ [Tick n, FireTimer (fst x)]) s) = ydoc s \<and>
               sent (run E ((EditorEdit h # evs) @ [Tick n, FireTimer (fst x)]) s) = sent s))"
proof -
  define s' where "s' = run E (EditorEdit h # evs) s"
  define e where "e = sinceEdit 0 evs"
  define hl where "hl = lastHtml h evs"
  have r: "s' = run E evs (editorEdit h s)"
    by (simp add: s'_def run_def)
  have p0: "pendingWrites 0 (editorEdit h s)"
    by (rule pendingWrites_edit [OF assms(1,2)])
  from burst_quiet [OF p0 _ assms(3), of E]
  have q: "sent s' = sent s" "ydoc s' = ydoc s" "yMetadata s' = yMetadata s"
    "editor s' = map_option (\<lambda>ed. ed\<lparr>html := hl\<rparr>) (editor s)"
    "pendingWrites e s'" "e < 200"
    unfolding r e_def hl_def by (cases "editor s"; simp)+
  have c: "\<exists>x \<in> set (timers s'). snd (snd x) = Debounce b"
    if ed: "editor s = Some ed" and b: "b \<in> set (updateHandlers ed)"
      and z: "lookupAt (bindings s) b = Some z" and u: "\<not> isUpdating z"
  proof -
    have cov: "covered s'" using q(5) by (simp add: pendingWrites_def)
    have hs: "b \<in> set (handlersOf s')" using q(4) ed b by (simp add: handlersOf_def)
    have m: "map isUpdating (bindings s) = map isUpdating (bindings s')"
      unfolding r using burst_bindings [OF p0 _ assms(3), of E] isUpdating_editorEdit [of h s]
      by simp
    from lookupAt_isUpdating [OF m z] obtain z' where
      z': "lookupAt (bindings s') b = Some z'" "isUpdating z' = isUpdating z" by blast
    from coveredD [OF cov hs z'(1)] z'(2) u show ?thesis by simp
  qed
  have first: "\<forall>x \<in> set (timers (editorEdit h s)). fst (snd x) = clock s + 200"
    by (rule edit_schedules(2) [OF assms(1)])
  have tm: "(\<exists>b. snd (snd x) = Debounce b) \<and> fst (snd x) + e = clock s' + 200 \<and> clock s' < fst (snd x)"
    if x: "x \<in> set (timers s')" for x
  proof -
    from q(5) x have d: "fst (snd x) + e = clock s' + 200"
      by (fastforce simp: pendingWrites_def)
    from q(5) x have "timerTracked (handlersOf s') s' x"
      by (simp add: pendingWrites_def tracked_def list_all_iff)
    then have "\<exists>b. snd (snd x) = Debounce b"
      by (cases "snd (snd x)") (simp_all add: timerTracked_def)
    with d q(6) show ?thesis by simp
  qed
  have fire: "(Some hl \<noteq> metaGet E (doc y) \<longrightarrow>
               ydoc (run E ((EditorEdit h # evs) @ [Tick n, FireTimer (fst x)]) s) = Some (y\<lparr>doc := d'\<rparr>) \<and>
               sent (run E ((EditorEdit h # evs) @ [Tick n, FireTimer (fst x)]) s) =
                 sent s @ (case em of None \<Rightarrow> [] | Some u \<Rightarrow> map (\<lambda>p. (p, u)) (observers y))) \<and>
            (Some hl = metaGet E (doc y) \<longrightarrow>
               ydoc (run E ((EditorEdit h # evs) @ [Tick n, FireTimer (fst x)]) s) = ydoc s \<and>
               sent (run E ((EditorEdit h # evs) @ [Tick n, FireTimer (fst x)]) s) = sent s)"
    if x: "x \<in> set (timers s')" and n: "200 \<le> e + n"
      and ed: "editor s = Some ed" and y: "ydoc s = Some y" and m: "yMetadata s"
      and ms: "metaSet E (doc y) hl = (d', em)"
  proof -
    define t where "t = clearTimeout (fst x) (s'\<lparr>clock := clock s' + n\<rparr>)"
    have run: "run E ((EditorEdit h # evs) @ [Tick n, FireTimer (fst x)]) s = debounceCallback E t"
      unfolding run_append s'_def [symmetric] t_def
      by (simp add: run_def pendingWrites_due [OF q(5) x n])
    have t: "editor t = Some (ed\<lparr>html := hl\<rparr>)" "ydoc t = Some y" "yMetadata t" "sent t = sent s"
      by (simp_all add: t_def q ed y m)
    have hh: "html (ed\<lparr>html := hl\<rparr>) = hl" by simp
    show ?thesis
    proof (cases "Some hl = metaGet E (doc y)")
      case True
      have "debounceCallback E t = t"
        by (rule debounceCallback_same [OF t(1,2)]) (simp add: True)
      with True t y show ?thesis unfolding run by simp
    next
      case False
      have w: "Some (html (ed\<lparr>html := hl\<rparr>)) \<noteq> metaGet E (doc y)"
        "metaSet E (doc y) (html (ed\<lparr>html := hl\<rparr>)) = (d', em)"
        using False ms by simp_all
      from debounceCallback_writes [OF t(1,2,3) w] False t(4) show ?thesis
        unfolding run by simp
    qed
  qed
  from q(1,2) c first tm fire show ?thesis
    unfolding s'_def [symmetric] e_def [symmetric] hl_def [symmetric] by blast
qed

text \<open>
  The theorem on a burst of three keystrokes.
\<close>

theorem edits_are_debounced_witness:
  "sent (run registerEngine (EditorEdit ''<p>xa</p>'' # keystrokes) gateState) = sent gateState \<and>
   ydoc (run registerEngine (EditorEdit ''<p>xa</p>'' # keystrokes) gateState) = ydoc gateState \<and>
   timers (run registerEngine (EditorEdit ''<p>xa</p>'' # keystrokes) gateState) = [(3, 300, Debounce 0)] \<and>
   ydoc (run registerEngine ((EditorEdit ''<p>xa</p>'' # keystrokes) @ [Tick 1, FireTimer 3]) gateState) =
     Some \<lparr>doc = Some ''<p>xabc</p>'', observers = [''p1'']\<rparr> \<and>
   sent (run registerEngine ((EditorEdit ''<p>xa</p>'' # keystrokes) @ [Tick 1, FireTimer 3]) gateState) =
     sent gateState @ [(''p1'', bytes ''<p>xabc</p>'')]"
proof -
  have a: "tracked gateState" by code_simp
  have u: "uniqueIds gateState" by code_simp
  have b: "paced 0 keystrokes" by (simp add: keystrokes_def)
  have tm: "timers (run registerEngine (EditorEdit ''<p>xa</p>'' # keystrokes) gateState) = [(3, 300, Debounce 0)]"
    by code_simp
  have c: "sinceEdit 0 keystrokes = 199" "lastHtml ''<p>xa</p>'' keystrokes = ''<p>xabc</p>''"
    by (simp_all add: keystrokes_def)
  have m: "metaSet registerEngine (doc \<lparr>doc = Some ''<p>x</p>'', observers = [''p1'']\<rparr>) ''<p>xabc</p>'' =
             (Some ''<p>xabc</p>'', Some (bytes ''<p>xabc</p>''))"
    "Some ''<p>xabc</p>'' \<noteq> metaGet registerEngine (doc \<lparr>doc = Some ''<p>x</p>'', observers = [''p1'']\<rparr>)"
    by code_simp+
  note t = edits_are_debounced [OF a u b, where E = registerEngine and h = "''<p>xa</p>''"
      and x = "(3, 300, Debounce 0)" and n = 1 and ed = gateEditor
      and y = "\<lparr>doc = Some ''<p>x</p>'', observers = [''p1'']\<rparr>"
      and d' = "Some ''<p>xabc</p>''" and em = "Some (bytes ''<p>xabc</p>'')"
      and b = 0 and z = freshBinding]
  from t have 1: "sent (run registerEngine (EditorEdit ''<p>xa</p>'' # keystrokes) gateState) = sent gateState"
    and 2: "ydoc (run registerEngine (EditorEdit ''<p>xa</p>'' # keystrokes) gateState) = ydoc gateState"
    by blast+
  have hyp: "(3, 300, Debounce 0) \<in> set (timers (run registerEngine (EditorEdit ''<p>xa</p>'' # keystrokes) gateState)) \<and>
     200 \<le> sinceEdit 0 keystrokes + 1 \<and> editor gateState = Some gateEditor \<and>
     ydoc gateState = Some \<lparr>doc = Some ''<p>x</p>'', observers = [''p1'']\<rparr> \<and> yMetadata gateState \<and>
     metaSet registerEngine (doc \<lparr>doc = Some ''<p>x</p>'', observers = [''p1'']\<rparr>) (lastHtml ''<p>xa</p>'' keystrokes) =
       (Some ''<p>xabc</p>'', Some (bytes ''<p>xabc</p>''))"
    using m(1) by (simp add: tm c gateState_fields)
  from t hyp m(2) c(2)
  have 3: "ydoc (run registerEngine ((EditorEdit ''<p>xa</p>'' # keystrokes) @ [Tick 1, FireTimer (fst (3::nat, 300::nat, Debounce 0))]) gateState) =
       Some (\<lparr>doc = Some ''<p>x</p>'', observers = [''p1'']\<rparr>\<lparr>doc := Some ''<p>xabc</p>''\<rparr>)"
    and 4: "sent (run registerEngine ((EditorEdit ''<p>xa</p>'' # keystrokes) @ [Tick 1, FireTimer (fst (3::nat, 300::nat, Debounce 0))]) gateState) =
       sent gateState @ (case Some (bytes ''<p>xabc</p>'') of None \<Rightarrow> [] | Some u \<Rightarrow> map (\<lambda>p. (p, u)) (observers \<lparr>doc = Some ''<p>x</p>'', observers = [''p1'']\<rparr>))"
    by metis+
  from 1 2 tm 3 4 show ?thesis by simp
qed

text \<open>
  C8. A metadata-change event changes nothing but the sidebar and the cover: the editor
  and the rest of the state stay as they are. In the sidebar every item keeps its page
  id, and an item is left untouched when its page id is not the event's, or when an
  earlier item already carries that id. The cover is left untouched unless the event's
  page id is the current page id.
\<close>

theorem metadata_change_frame:
  "(onMetadataChange (Some ev) s)\<lparr>sidebar := sidebar s, cover := cover s\<rparr> = s \<and>
   editor (onMetadataChange (Some ev) s) = editor s \<and>
   length (sidebar (onMetadataChange (Some ev) s)) = length (sidebar s) \<and>
   (j < length (sidebar s) \<longrightarrow>
      dataPageId (sidebar (onMetadataChange (Some ev) s) ! j) = dataPageId (sidebar s ! j)) \<and>
   (j < length (sidebar s) \<and> dataPageId (sidebar s ! j) \<noteq> evPageId ev \<longrightarrow>
      sidebar (onMetadataChange (Some ev) s) ! j = sidebar s ! j) \<and>
   (j < length (sidebar s) \<and> k < j \<and> dataPageId (sidebar s ! k) = evPageId ev \<longrightarrow>
      sidebar (onMetadataChange (Some ev) s) ! j = sidebar s ! j) \<and>
   (Some (evPageId ev) \<noteq> currentPageId s \<longrightarrow> cover (onMetadataChange (Some ev) s) = cover s)"
proof -
  have a: "dataPageId (sidebar (onMetadataChange (Some ev) s) ! j) = dataPageId (sidebar s ! j)"
    if "j < length (sidebar s)"
    using that by (simp add: sidebar_onMetadataChange updateFirst_nth)
  have b: "sidebar (onMetadataChange (Some ev) s) ! j = sidebar s ! j"
    if "j < length (sidebar s)" "dataPageId (sidebar s ! j) \<noteq> evPageId ev"
    using that by (simp add: sidebar_onMetadataChange updateFirst_nth)
  have c: "sidebar (onMetadataChange (Some ev) s) ! j = sidebar s ! j"
    if "j < length (sidebar s)" "k < j" "dataPageId (sidebar s ! k) = evPageId ev"
    using that by (auto simp add: sidebar_onMetadataChange updateFirst_nth)
  from a b c show ?thesis
    by (simp add: onMetadataChange_frame editor_onMetadataChange cover_onMetadataChange
        sidebar_onMetadataChange)
qed

text \<open>
  The theorem on a sidebar of two pages.
\<close>

theorem metadata_change_frame_witness:
  "sidebar (step registerEngine (MetadataChange 1 (Some titleChange)) viewingP2) =
     [\<lparr>dataPageId = ''P1'', titleSpan = Some \<lparr>spanIcon = Some (FaIcon ''fa-solid fa-book''), spanText = ''New Title''\<rparr>\<rparr>,
      \<lparr>dataPageId = ''P2'', titleSpan = Some \<lparr>spanIcon = None, spanText = ''Other''\<rparr>\<rparr>] \<and>
   sidebar (step registerEngine (MetadataChange 1 (Some titleChange)) viewingP2) ! 1 = sidebar viewingP2 ! 1 \<and>
   cover (step registerEngine (MetadataChange 1 (Some titleChange)) viewingP2) = cover viewingP2 \<and>
   editor (step registerEngine (MetadataChange 1 (Some titleChange)) viewingP2) = editor viewingP2"
proof -
  have st: "step registerEngine (MetadataChange 1 (Some titleChange)) viewingP2 =
            onMetadataChange (Some titleChange) viewingP2"
    by code_simp
  have sb: "sidebar viewingP2 = twoPages" and cp: "currentPageId viewingP2 = Some ''P2''"
    by code_simp+
  have h: "(1::nat) < length (sidebar viewingP2)"
    "dataPageId (sidebar viewingP2 ! 1) \<noteq> evPageId titleChange"
    "Some (evPageId titleChange) \<noteq> currentPageId viewingP2"
    by (simp_all add: sb cp twoPages_def titleChange_def)
  have v: "sidebar (onMetadataChange (Some titleChange) viewingP2) =
     [\<lparr>dataPageId = ''P1'', titleSpan = Some \<lparr>spanIcon = Some (FaIcon ''fa-solid fa-book''), spanText = ''New Title''\<rparr>\<rparr>,
      \<lparr>dataPageId = ''P2'', titleSpan = Some \<lparr>spanIcon = None, spanText = ''Other''\<rparr>\<rparr>]"
    by (simp add: sidebar_onMetadataChange sb twoPages_def titleChange_def updateItem_def)
  have t: "(onMetadataChange (Some titleChange) viewingP2)\<lparr>sidebar := sidebar viewingP2, cover := cover viewingP2\<rparr> = viewingP2 \<and>
   editor (onMetadataChange (Some titleChange) viewingP2) = editor viewingP2 \<and>
   length (sidebar (onMetadataChange (Some titleChange) viewingP2)) = length (sidebar viewingP2) \<and>
   (1 < length (sidebar viewingP2) \<longrightarrow>
      dataPageId (sidebar (onMetadataChange (Some titleChange) viewingP2) ! 1) = dataPageId (sidebar viewingP2 ! 1)) \<and>
   (1 < length (sidebar viewingP2) \<and> dataPageId (sidebar viewingP2 ! 1) \<noteq> evPageId titleChange \<longrightarrow>
      sidebar (onMetadataChange (Some titleChange) viewingP2) ! 1 = sidebar viewingP2 ! 1) \<and>
   (1 < length (sidebar viewingP2) \<and> 0 < (1::nat) \<and> dataPageId (sidebar viewingP2 ! 0) = evPageId titleChange \<longrightarrow>
      sidebar (onMetadataChange (Some titleChange) viewingP2) ! 1 = sidebar viewingP2 ! 1) \<and>
   (Some (evPageId titleChange) \<noteq> currentPageId viewingP2 \<longrightarrow>
      cover (onMetadataChange (Some titleChange) viewingP2) = cover viewingP2)"
    by (rule metadata_change_frame [where ev = titleChange and s = viewingP2 and j = 1 and k = 0])
  from t h have u: "sidebar (onMetadataChange (Some titleChange) viewingP2) ! 1 = sidebar viewingP2 ! 1"
    and c: "cover (onMetadataChange (Some titleChange) viewingP2) = cover viewingP2"
    and e: "editor (onMetadataChange (Some titleChange) viewingP2) = editor viewingP2"
    by blast+
  show ?thesis
    unfolding st using v u c e by blast
qed

text \<open>
  C9. A \<open>yjs-update\<close> never adds a request, and the document's update handler posts an
  update exactly when its origin is not \<open>remote\<close>. The \<open>init\<close> listener, however, applies
  the server's snapshot without an origin: on the run below the first request posted is
  the snapshot the server has just sent (the second is the editor content, a local
  change).
\<close>

theorem init_snapshot_sent_back:
  "sent (onYjsUpdate E payload s) = sent s \<and>
   ydocUpdateHandler p u origin s =
     (if origin = Some ''remote'' then s else s\<lparr>sent := sent s @ [(p, u)]\<rparr>) \<and>
   sent (run registerEngine
      [StartPageSync ''p1'' False, SourceOpen 0, Init 0 (Some (bytes ''hi''))]
      (initSyncManager (plainApp ''<p>x</p>'') (moduleLoad [] noCover))) =
     [(''p1'', bytes ''hi''), (''p1'', bytes ''<p>x</p>'')]"
proof -
  have "sent (run registerEngine
      [StartPageSync ''p1'' False, SourceOpen 0, Init 0 (Some (bytes ''hi''))]
      (initSyncManager (plainApp ''<p>x</p>'') (moduleLoad [] noCover))) =
     [(''p1'', bytes ''hi''), (''p1'', bytes ''<p>x</p>'')]"
    by code_simp
  then show ?thesis
    by (simp add: sent_onYjsUpdate ydocUpdateHandler_def sendYjsUpdate_def)
qed

text \<open>
  C10 (amended). While the editor has focus and the page stream is open, remote updates
  leave the editor as it is, and after any number of them one more update that merges
  sets the pending slot of the installed binding to the merged content when that content
  is non-empty and differs from what the editor shows, and leaves the slot as it was
  otherwise: the slot holds the content of the most recent update that passed this test.
  Storing a pending content twice equals storing the later one; the blur handler of a
  binding with a stored content puts it into the editor and empties the slot; a second
  run of the handler, and a second blur, change nothing.
\<close>

theorem pending_slot_last_write_wins:
  assumes "editor s = Some ed" and "hasFocus ed" and "setPendingRemoteUpdate ed = Some b"
    and "openStream s i = Some (PageStream p enc)" and "yMetadata s"
  shows "editor (run E (map (YjsUpdate i) us) s) = Some ed \<and>
         (lookupAt (bindings (run E (map (YjsUpdate i) us) s)) b = Some x \<and>
          ydoc (run E (map (YjsUpdate i) us) s) = Some y \<and>
          applyUpdate E (doc y) u = Some (d', em) \<longrightarrow>
            map_option remoteUpdatePending
              (lookupAt (bindings (run E (map (YjsUpdate i) (us @ [Some u])) s)) b) =
              Some (case metaGet E d' of
                      None \<Rightarrow> remoteUpdatePending x
                    | Some c \<Rightarrow> if truthy c \<and> c \<noteq> html ed then Some c
                                else remoteUpdatePending x)) \<and>
         setPending b c2 (setPending b c1 t) = setPending b c2 t \<and>
         onEditorBlur b (onEditorBlur b t) = onEditorBlur b t \<and>
         editorBlur (editorBlur t) = editorBlur t \<and>
         (lookupAt (bindings t) b = Some z \<and> remoteUpdatePending z = Some c \<and> truthy c \<longrightarrow>
            editor (onEditorBlur b t) = map_option (\<lambda>ed. ed\<lparr>html := c\<rparr>) (editor t) \<and>
            map_option remoteUpdatePending (lookupAt (bindings (onEditorBlur b t)) b) = Some None)"
proof -
  define s' where "s' = run E (map (YjsUpdate i) us) s"
  from gate_run [OF assms(1,2), of E i us]
  have g: "editor s' = Some ed" "sources s' = sources s" "yMetadata s' = yMetadata s"
    by (simp_all add: s'_def)
  have o: "openStream s' i = Some (PageStream p enc)"
    using assms(4) by (simp add: openStream_def g(2))
  have "run E (map (YjsUpdate i) (us @ [Some u])) s = run E [YjsUpdate i (Some u)] s'"
    by (simp add: run_append s'_def)
  also have "\<dots> = onYjsUpdate E (Some u) s'"
    by (simp add: run_def onPageStream_def o)
  finally have r: "run E (map (YjsUpdate i) (us @ [Some u])) s = onYjsUpdate E (Some u) s'" .
  have store: "map_option remoteUpdatePending
              (lookupAt (bindings (run E (map (YjsUpdate i) (us @ [Some u])) s)) b) =
              Some (case metaGet E d' of
                      None \<Rightarrow> remoteUpdatePending x
                    | Some c \<Rightarrow> if truthy c \<and> c \<noteq> html ed then Some c
                                else remoteUpdatePending x)"
    if "lookupAt (bindings s') b = Some x" "ydoc s' = Some y" "applyUpdate E (doc y) u = Some (d', em)"
    unfolding r using assms(5) g(3)
    by (intro gate_stored [OF g(1) assms(2,3) that(1,2) _ that(3)]) simp
  have i: "onEditorBlur b (onEditorBlur b t) = onEditorBlur b t"
    by (rule onEditorBlur_idle) (rule idle_after)
  have a: "editor (onEditorBlur b t) = map_option (\<lambda>ed. ed\<lparr>html := c\<rparr>) (editor t) \<and>
      map_option remoteUpdatePending (lookupAt (bindings (onEditorBlur b t)) b) = Some None"
    if "lookupAt (bindings t) b = Some z" "remoteUpdatePending z = Some c" "truthy c"
    using that by (simp add: onEditorBlur_fired [OF that] lookupAt_modify)
  from g(1) store i a show ?thesis
    unfolding s'_def [symmetric]
    by (simp add: setPending_twice editorBlur_idempotent)
qed

text \<open>
  The theorem on two remote updates at a focused editor, followed by the blur handler.
\<close>

theorem pending_slot_last_write_wins_witness:
  "map_option html (editor (run registerEngine (map (YjsUpdate 0) [Some (bytes ''<p>r</p>'')]) gateState)) =
     Some ''<p>x</p>'' \<and>
   map_option remoteUpdatePending
     (lookupAt (bindings (run registerEngine
        (map (YjsUpdate 0) ([Some (bytes ''<p>r</p>'')] @ [Some (bytes ''<p>y</p>'')])) gateState)) 0) =
     Some (Some ''<p>y</p>'') \<and>
   map_option html (editor (onEditorBlur 0 (run registerEngine
        (map (YjsUpdate 0) ([Some (bytes ''<p>r</p>'')] @ [Some (bytes ''<p>y</p>'')])) gateState))) =
     Some ''<p>y</p>'' \<and>
   map_option remoteUpdatePending
     (lookupAt (bindings (onEditorBlur 0 (run registerEngine
        (map (YjsUpdate 0) ([Some (bytes ''<p>r</p>'')] @ [Some (bytes ''<p>y</p>'')])) gateState))) 0) =
     Some None"
proof -
  define s1 where "s1 = run registerEngine (map (YjsUpdate 0) [Some (bytes ''<p>r</p>'')]) gateState"
  define s2 where "s2 = run registerEngine
        (map (YjsUpdate 0) ([Some (bytes ''<p>r</p>'')] @ [Some (bytes ''<p>y</p>'')])) gateState"
  have f: "hasFocus gateEditor" "setPendingRemoteUpdate gateEditor = Some 0"
    "html gateEditor = ''<p>x</p>''"
    by (simp_all add: gateEditor_def)
  have h: "lookupAt (bindings s1) 0 = Some (freshBinding\<lparr>remoteUpdatePending := Some ''<p>r</p>''\<rparr>)"
    "ydoc s1 = Some \<lparr>doc = Some ''<p>r</p>'', observers = [''p1'']\<rparr>"
    unfolding s1_def by code_simp+
  have m: "applyUpdate registerEngine (doc \<lparr>doc = Some ''<p>r</p>'', observers = [''p1'']\<rparr>) (bytes ''<p>y</p>'') =
             (Some (Some ''<p>y</p>'', Some (bytes ''<p>y</p>'')))"
    "metaGet registerEngine (Some ''<p>y</p>'') = Some ''<p>y</p>''"
    "truthy ''<p>y</p>''" "''<p>y</p>'' \<noteq> ''<p>x</p>''"
    by code_simp+
  have k: "lookupAt (bindings s2) 0 = Some (freshBinding\<lparr>remoteUpdatePending := Some ''<p>y</p>''\<rparr>)"
    unfolding s2_def by code_simp
  have k': "remoteUpdatePending (freshBinding\<lparr>remoteUpdatePending := Some ''<p>y</p>''\<rparr>) = Some ''<p>y</p>''"
    by simp
  note t = pending_slot_last_write_wins [OF gateState_fields(1) f(1,2) gateState_fields(5,4),
      where E = registerEngine and us = "[Some (bytes ''<p>r</p>'')]" and u = "bytes ''<p>y</p>''"
        and x = "freshBinding\<lparr>remoteUpdatePending := Some ''<p>r</p>''\<rparr>"
        and y = "\<lparr>doc = Some ''<p>r</p>'', observers = [''p1'']\<rparr>"
        and d' = "Some ''<p>y</p>''" and em = "Some (bytes ''<p>y</p>'')"
        and t = s2 and z = "freshBinding\<lparr>remoteUpdatePending := Some ''<p>y</p>''\<rparr>"
        and c = "''<p>y</p>''",
      folded s1_def s2_def]
  from t have 1: "editor s1 = Some gateEditor" by blast
  from t h m(1) have 2: "map_option remoteUpdatePending (lookupAt (bindings s2) 0) =
      Some (case metaGet registerEngine (Some ''<p>y</p>'') of
              None \<Rightarrow> remoteUpdatePending (freshBinding\<lparr>remoteUpdatePending := Some ''<p>r</p>''\<rparr>)
            | Some c \<Rightarrow> if truthy c \<and> c \<noteq> html gateEditor then Some c
                        else remoteUpdatePending (freshBinding\<lparr>remoteUpdatePending := Some ''<p>r</p>''\<rparr>))"
    by blast
  from t k k' m(3) have 3: "editor (onEditorBlur 0 s2) = map_option (\<lambda>ed. ed\<lparr>html := ''<p>y</p>''\<rparr>) (editor s2)"
    and 4: "map_option remoteUpdatePending (lookupAt (bindings (onEditorBlur 0 s2)) 0) = Some None"
    by blast+
  have e2: "editor s2 = Some gateEditor"
    unfolding s2_def by code_simp
  from 1 2 3 4 e2 m f(3) show ?thesis
    unfolding s1_def [symmetric] s2_def [symmetric] by simp
qed

text \<open>
  C10 as stated fails: the slot need not hold the content of the most recent remote
  update received while the editor had focus. Here the editor shows \<open><p>x</p>\<close> and has
  focus; a first update with content \<open><p>r</p>\<close> is stored, a second one with content
  \<open><p>x</p>\<close> equals what the editor shows and is skipped, so the slot keeps the older
  content, and the blur puts that older content into the editor although the merged
  document holds \<open><p>x</p>\<close>.
\<close>

theorem pending_slot_keeps_older_update:
  "map_option hasFocus (editor gateState) = Some True \<and>
   map_option remoteUpdatePending
     (lookupAt (bindings (run registerEngine
        [YjsUpdate 0 (Some (bytes ''<p>r</p>'')), YjsUpdate 0 (Some (bytes ''<p>x</p>''))] gateState)) 0) =
     Some (Some ''<p>r</p>'') \<and>
   map_option (\<lambda>y. metaGet registerEngine (doc y))
     (ydoc (run registerEngine
        [YjsUpdate 0 (Some (bytes ''<p>r</p>'')), YjsUpdate 0 (Some (bytes ''<p>x</p>''))] gateState)) =
     Some (Some ''<p>x</p>'') \<and>
   map_option html (editor (editorBlur (run registerEngine
        [YjsUpdate 0 (Some (bytes ''<p>r</p>'')), YjsUpdate 0 (Some (bytes ''<p>x</p>''))] gateState))) =
     Some ''<p>r</p>''"
  by code_simp

end
